theory Spec2Isabelle
  imports Complex_Main "HOL-Library.Word" "HOL-Library.Monad_Syntax" "HOL-Library.Code_Target_Numeral"
begin

section \<open>The fenster bridge (src/native/fenster\_bridge.c)\<close>

text \<open>
  The bridge is a C shim around the single-header window library fenster.h.  It owns a
  heap-allocated pixel buffer and a copy of the window title, forwards open, loop and
  close to the library, and reallocates the pixel buffer when the library reports new
  physical dimensions.

  The embedding is shallow.  C objects live in an explicit store that maps addresses to
  objects; every exported function of the bridge is a HOL function that takes the store
  and returns the updated store.  Undefined behaviour of the C program (a dangling or
  null handle, \<open>free\<close> of a pointer that is not live, \<open>memcpy\<close> beyond a block) is the
  value \<open>None\<close>.  What the environment decides (the address an allocator call returns,
  what the window library does to its state record) is an argument of the function that
  makes the call.
\<close>

subsection \<open>Machine types\<close>

text \<open>
  \<open>int\<close> is 32 bits wide and read with \<open>sint\<close>; \<open>size_t\<close> is 64 bits wide (the LP64 and
  LLP64 targets of the package).  A \<open>float\<close> is kept as its IEEE-754 binary32 bit pattern,
  which is what the struct stores; the all-zero pattern is \<open>0.0f\<close>.
\<close>

type_synonym addr = nat
type_synonym byte = "8 word"
type_synonym c_int = "32 word"
type_synonym size_t = "64 word"
type_synonym float32 = "32 word"

abbreviation NULL :: addr where
  "NULL \<equiv> 0"

definition one_f :: float32 where
  \<comment> \<open>the literal \<open>1.0f\<close>\<close>
  "one_f = 0x3F800000"

subsection \<open>Binary32 arithmetic\<close>

text \<open>
  The one floating-point computation of the bridge is the C expression \<open>(int)(n * s)\<close>
  for an \<open>int n\<close> and a \<open>float s\<close>: \<open>n\<close> is converted to \<open>float\<close>, the product is
  formed in binary32 (\<open>FLT_EVAL_METHOD\<close> 0, as on x86-64 and AArch64), and the result is
  converted to \<open>int\<close>.  Both roundings are to nearest, ties to even; the conversion to
  \<open>int\<close> truncates toward zero and is undefined for a NaN, an infinity and a value
  whose truncation is not an \<open>int\<close>.

  A decoded value \<open>FFinite sg m e\<close> is \<open>(-1)^sg * m * 2^e\<close>.
\<close>

datatype fval = FFinite bool nat int | FInf bool | FNaN

definition float_decode :: "float32 \<Rightarrow> fval" where
  \<comment> \<open>sign bit, 8 exponent bits, 23 fraction bits\<close>
  "float_decode s =
     (let u = unat s; sg = (2 ^ 31 \<le> u); e = (u div 2 ^ 23) mod 256; m = u mod 2 ^ 23
      in if e = 255 then (if m = 0 then FInf sg else FNaN)
         else if e = 0 then FFinite sg m (- 149)
         else FFinite sg (2 ^ 23 + m) (int e - 150))"

text \<open>The number of low bits that \<open>n\<close> has beyond 24 significant bits.\<close>

fun excess :: "nat \<Rightarrow> nat" where
  "excess n = (if n < 2 ^ 24 then 0 else Suc (excess (n div 2)))"

declare excess.simps [simp del]

definition round_even :: "nat \<Rightarrow> nat \<Rightarrow> nat" where
  \<comment> \<open>\<open>n / 2^k\<close> rounded to the nearest integer, ties to even\<close>
  "round_even n k =
     (let q = n div 2 ^ k; r = n mod 2 ^ k
      in if 2 ^ k < 2 * r \<or> (2 * r = 2 ^ k \<and> odd q) then q + 1 else q)"

text \<open>
  Rounding \<open>(-1)^sg * n * 2^e\<close> to binary32: at most 24 significant bits, no exponent
  below that of the subnormal numbers, and an infinity from \<open>2^128\<close> on.
\<close>

definition float_round :: "bool \<Rightarrow> nat \<Rightarrow> int \<Rightarrow> fval" where
  "float_round sg n e =
     (let k = max (excess n) (nat (- 149 - e)); m = round_even n k; e' = e + int k
      in if 0 \<le> e' \<and> 2 ^ 128 \<le> m * 2 ^ nat e' then FInf sg else FFinite sg m e')"

definition float_of_int :: "c_int \<Rightarrow> fval" where
  "float_of_int n = float_round (sint n < 0) (nat \<bar>sint n\<bar>) 0"

fun float_mul :: "fval \<Rightarrow> fval \<Rightarrow> fval" where
  "float_mul (FFinite s1 m1 e1) (FFinite s2 m2 e2) = float_round (s1 \<noteq> s2) (m1 * m2) (e1 + e2)"
| "float_mul (FFinite s1 m1 e1) (FInf s2) = (if m1 = 0 then FNaN else FInf (s1 \<noteq> s2))"
| "float_mul (FInf s1) (FFinite s2 m2 e2) = (if m2 = 0 then FNaN else FInf (s1 \<noteq> s2))"
| "float_mul (FInf s1) (FInf s2) = FInf (s1 \<noteq> s2)"
| "float_mul _ _ = FNaN"

fun float_to_int :: "fval \<Rightarrow> c_int option" where
  "float_to_int (FFinite sg m e) =
     (let t = (if 0 \<le> e then m * 2 ^ nat e else m div 2 ^ nat (- e))
      in if sg then (if t \<le> 2 ^ 31 then Some (word_of_int (- int t)) else None)
         else (if t < 2 ^ 31 then Some (word_of_int (int t)) else None))"
| "float_to_int _ = None"

definition scale_dim :: "c_int \<Rightarrow> float32 \<Rightarrow> c_int option" where
  \<comment> \<open>\<open>(int)(n * s)\<close>\<close>
  "scale_dim n s = float_to_int (float_mul (float_of_int n) (float_decode s))"

subsection \<open>The structs\<close>

text \<open>
  Xlib's image record, as far as the bridge touches it: the \<open>data\<close> pointer and the
  dimensions given to \<open>XCreateImage\<close>.
\<close>

record ximage =
  data :: addr
  xwidth :: c_int
  xheight :: c_int

text \<open>
  \<open>struct fenster\<close> is declared in fenster.h; these are the members the bridge names.
  The member \<open>buf\<close> is \<open>f_buf\<close> here and \<open>mod\<close> is \<open>mod_f\<close>.  The member \<open>img\<close>
  exists on X11 only; it is a pointer to an image that the window state owns, modelled
  by the image itself (\<open>None\<close> is the null pointer).
\<close>

record fenster =
  title :: addr
  width :: c_int
  height :: c_int
  f_buf :: addr
  phys_width :: c_int
  phys_height :: c_int
  scale :: float32
  keys :: "c_int list"
  mod_f :: c_int
  img :: "ximage option"

record fenster_bridge =
  f :: fenster
  buf :: addr
  title_copy :: addr
  resized :: c_int
  prev_width :: c_int
  prev_height :: c_int
  prev_scale :: float32

text \<open>The all-zero structs that \<open>calloc\<close> and an initializer without a member give.\<close>

definition zero_fenster :: fenster where
  "zero_fenster = \<lparr>title = NULL, width = 0, height = 0, f_buf = NULL, phys_width = 0,
     phys_height = 0, scale = 0, keys = replicate 256 0, mod_f = 0, img = None\<rparr>"

definition zero_bridge :: fenster_bridge where
  "zero_bridge = \<lparr>f = zero_fenster, buf = NULL, title_copy = NULL, resized = 0,
     prev_width = 0, prev_height = 0, prev_scale = 0\<rparr>"

datatype platform = Apple | Win32 | X11

subsection \<open>The store and the C library\<close>

datatype obj = Bytes "byte list" | CString string | Bridge fenster_bridge

type_synonym heap = "addr \<rightharpoonup> obj"

text \<open>
  An allocator call gets the address \<open>a\<close> that the allocator would hand out.  The call
  fails (returns \<open>NULL\<close>) when \<open>a\<close> is \<open>NULL\<close> (out of memory), when \<open>a\<close> is the address of a
  live object (no allocator returns one), and, for \<open>calloc\<close>, when the product of its
  arguments does not fit \<open>size_t\<close>.
\<close>

definition calloc :: "addr \<Rightarrow> heap \<Rightarrow> size_t \<Rightarrow> size_t \<Rightarrow> addr \<times> heap" where
  "calloc a h nmemb sz =
     (if a = NULL \<or> h a \<noteq> None \<or> 2 ^ 64 \<le> unat nmemb * unat sz then (NULL, h)
      else (a, h(a \<mapsto> Bytes (replicate (unat nmemb * unat sz) 0))))"

definition calloc_bridge :: "addr \<Rightarrow> heap \<Rightarrow> addr \<times> heap" where
  \<comment> \<open>\<open>calloc(1, sizeof(fenster_bridge))\<close>\<close>
  "calloc_bridge a h =
     (if a = NULL \<or> h a \<noteq> None then (NULL, h) else (a, h(a \<mapsto> Bridge zero_bridge)))"

definition strdup :: "addr \<Rightarrow> heap \<Rightarrow> string \<Rightarrow> addr \<times> heap" where
  "strdup a h s =
     (if a = NULL \<or> h a \<noteq> None then (NULL, h) else (a, h(a \<mapsto> CString s)))"

definition free :: "heap \<Rightarrow> addr \<Rightarrow> heap option" where
  "free h p =
     (if p = NULL then Some h
      else case h p of None \<Rightarrow> None | Some _ \<Rightarrow> Some (h(p := None)))"

definition memcpy :: "heap \<Rightarrow> addr \<Rightarrow> byte list \<Rightarrow> size_t \<Rightarrow> heap option" where
  \<comment> \<open>the source region is given by its bytes\<close>
  "memcpy h dst src n =
     (case h dst of
        Some (Bytes bs) \<Rightarrow>
          if unat n \<le> length bs \<and> unat n \<le> length src
          then Some (h(dst \<mapsto> Bytes (take (unat n) src @ drop (unat n) bs)))
          else None
      | _ \<Rightarrow> None)"

text \<open>
  \<open>XDestroyImage\<close> releases the image's pixel data, unless the pointer is null, and the
  image record, which is Xlib's own.  \<open>XCreateImage\<close> returns a new image bound to the
  data pointer it is given, or null.
\<close>

definition XDestroyImage :: "heap \<Rightarrow> ximage \<Rightarrow> heap option" where
  "XDestroyImage h i = free h (data i)"

definition XCreateImage :: "bool \<Rightarrow> addr \<Rightarrow> c_int \<Rightarrow> c_int \<Rightarrow> ximage option" where
  "XCreateImage ok d w hh =
     (if ok then Some \<lparr>data = d, xwidth = w, xheight = hh\<rparr> else None)"

text \<open>Reading and writing the struct behind a handle.\<close>

definition get_bridge :: "heap \<Rightarrow> addr \<Rightarrow> fenster_bridge option" where
  "get_bridge h fb =
     (if fb = NULL then None
      else case h fb of Some (Bridge b) \<Rightarrow> Some b | _ \<Rightarrow> None)"

definition put_bridge :: "heap \<Rightarrow> addr \<Rightarrow> fenster_bridge \<Rightarrow> heap option" where
  "put_bridge h fb b =
     (case get_bridge h fb of None \<Rightarrow> None | Some _ \<Rightarrow> Some (h(fb \<mapsto> Bridge b)))"

subsection \<open>The exported functions\<close>

text \<open>
  \<open>fenster_bridge_create\<close>: \<open>a1\<close>, \<open>a2\<close> and \<open>a3\<close> are the allocator's answers to the
  handle's \<open>calloc\<close>, the buffer's \<open>calloc\<close> and \<open>strdup\<close>.  The result is the returned
  pointer and the store.
\<close>

definition fenster_bridge_create ::
  "addr \<Rightarrow> addr \<Rightarrow> addr \<Rightarrow> heap \<Rightarrow> string \<Rightarrow> c_int \<Rightarrow> c_int \<Rightarrow> (addr \<times> heap) option" where
  "fenster_bridge_create a1 a2 a3 h ttl w hh =
     (case calloc_bridge a1 h of (fb, h1) \<Rightarrow>
      if fb = NULL then Some (NULL, h1)
      else case calloc a2 h1 (scast w * scast hh) 4 of (p, h2) \<Rightarrow>
        if p = NULL then do { h3 \<leftarrow> free h2 fb; Some (NULL, h3) }
        else case strdup a3 h2 ttl of (tc, h3) \<Rightarrow>
          do {
            let init = zero_fenster\<lparr>title := tc, width := w, height := hh, f_buf := p\<rparr>;
            h4 \<leftarrow> put_bridge h3 fb
              (zero_bridge\<lparr>buf := p, title_copy := tc, f := init, prev_width := w,
                 prev_height := hh, prev_scale := one_f, resized := 0\<rparr>);
            Some (fb, h4)
          })"

text \<open>
  Lines 55 to 66: the reallocation of \<open>fenster_bridge_open\<close> on the struct \<open>b\<close>, after
  the library call.
\<close>

definition open_realloc :: "addr \<Rightarrow> heap \<Rightarrow> fenster_bridge \<Rightarrow> (fenster_bridge \<times> heap) option" where
  "open_realloc a h b =
     (if phys_width (f b) \<noteq> prev_width b \<or> phys_height (f b) \<noteq> prev_height b then
        (case calloc a h (scast (phys_width (f b)) * scast (phys_height (f b))) 4 of
           (new_buf, h1) \<Rightarrow>
             if new_buf \<noteq> NULL then do {
               h2 \<leftarrow> free h1 (buf b);
               Some (b\<lparr>buf := new_buf, f := (f b)\<lparr>f_buf := new_buf\<rparr>,
                       prev_width := phys_width (f b), prev_height := phys_height (f b)\<rparr>, h2)
             }
             else Some (b, h1))
      else Some (b, h))"

text \<open>
  \<open>fenster_bridge_open\<close>: \<open>fenster_open\<close> is what the library's open routine does to the
  window state in this call, with its status; \<open>a\<close> is the allocator's answer.
\<close>

definition fenster_bridge_open ::
  "(fenster \<Rightarrow> c_int \<times> fenster) \<Rightarrow> addr \<Rightarrow> heap \<Rightarrow> addr \<Rightarrow> (c_int \<times> heap) option" where
  "fenster_bridge_open fenster_open a h fb =
     do {
       b \<leftarrow> get_bridge h fb;
       case fenster_open (f b) of (result, f1) \<Rightarrow>
         if result \<noteq> 0 then do {
           h1 \<leftarrow> put_bridge h fb (b\<lparr>f := f1\<rparr>);
           Some (result, h1)
         }
         else do {
           (b2, h2) \<leftarrow> open_realloc a h (b\<lparr>f := f1\<rparr>);
           h3 \<leftarrow> put_bridge h2 fb (b2\<lparr>prev_scale := scale (f b2)\<rparr>);
           Some (0, h3)
         }
     }"

text \<open>
  Lines 89 to 98, compiled on X11 only: the old image is destroyed with its data pointer
  cleared first, and a new image is bound to the new buffer.
\<close>

definition recreate_img ::
  "platform \<Rightarrow> bool \<Rightarrow> heap \<Rightarrow> fenster \<Rightarrow> addr \<Rightarrow> c_int \<Rightarrow> c_int \<Rightarrow> (fenster \<times> heap) option" where
  "recreate_img plat xok h fs new_buf newW newH =
     (if plat = X11 then do {
        h1 \<leftarrow> (case img fs of
                 None \<Rightarrow> Some h
               | Some i \<Rightarrow> XDestroyImage h (i\<lparr>data := NULL\<rparr>));
        Some (fs\<lparr>img := XCreateImage xok new_buf newW newH\<rparr>, h1)
      }
      else Some (fs, h))"

text \<open>Lines 77 to 105: the resize detection of \<open>fenster_bridge_loop\<close>.\<close>

definition loop_realloc ::
  "platform \<Rightarrow> bool \<Rightarrow> addr \<Rightarrow> heap \<Rightarrow> fenster_bridge \<Rightarrow> (fenster_bridge \<times> heap) option" where
  "loop_realloc plat xok a h b =
     (if phys_width (f b) \<noteq> prev_width b \<or> phys_height (f b) \<noteq> prev_height b then
        (let newW = phys_width (f b); newH = phys_height (f b) in
         case calloc a h (scast newW * scast newH) 4 of
           (new_buf, h1) \<Rightarrow>
             if new_buf \<noteq> NULL then do {
               h2 \<leftarrow> free h1 (buf b);
               (f2, h3) \<leftarrow> recreate_img plat xok h2 ((f b)\<lparr>f_buf := new_buf\<rparr>) new_buf newW newH;
               Some (b\<lparr>buf := new_buf, f := f2, resized := 1, prev_width := newW,
                       prev_height := newH, prev_scale := scale f2\<rparr>, h3)
             }
             else Some (b, h1))
      else Some (b, h))"

text \<open>
  \<open>fenster_bridge_loop\<close>: \<open>fenster_loop\<close> is what the library's pump routine does in this
  call, \<open>xok\<close> whether \<open>XCreateImage\<close> succeeds, \<open>a\<close> the allocator's answer.
\<close>

definition fenster_bridge_loop ::
  "platform \<Rightarrow> (fenster \<Rightarrow> c_int \<times> fenster) \<Rightarrow> bool \<Rightarrow> addr \<Rightarrow> heap \<Rightarrow> addr
     \<Rightarrow> (c_int \<times> heap) option" where
  "fenster_bridge_loop plat fenster_loop xok a h fb =
     do {
       b \<leftarrow> get_bridge h fb;
       case fenster_loop (f b) of (result, f1) \<Rightarrow> do {
         (b2, h2) \<leftarrow> loop_realloc plat xok a h (b\<lparr>f := f1\<rparr>);
         h3 \<leftarrow> put_bridge h2 fb b2;
         Some (result, h3)
       }
     }"

text \<open>\<open>fenster_bridge_close\<close>: \<open>fenster_close\<close> is the library's teardown.\<close>

definition fenster_bridge_close :: "(fenster \<Rightarrow> fenster) \<Rightarrow> heap \<Rightarrow> addr \<Rightarrow> heap option" where
  "fenster_bridge_close fenster_close h fb =
     (if fb = NULL then Some h
      else do {
        b \<leftarrow> get_bridge h fb;
        h1 \<leftarrow> put_bridge h fb (b\<lparr>f := fenster_close (f b)\<rparr>);
        h2 \<leftarrow> free h1 (buf b);
        h3 \<leftarrow> free h2 (title_copy b);
        free h3 fb
      })"

definition fenster_bridge_get_buf :: "heap \<Rightarrow> addr \<Rightarrow> addr option" where
  "fenster_bridge_get_buf h fb = map_option buf (get_bridge h fb)"

definition fenster_bridge_copy_buf :: "heap \<Rightarrow> addr \<Rightarrow> byte list \<Rightarrow> c_int \<Rightarrow> heap option" where
  "fenster_bridge_copy_buf h fb src byte_length =
     do {
       b \<leftarrow> get_bridge h fb;
       memcpy h (buf b) src (scast byte_length)
     }"

definition fenster_bridge_get_keys :: "heap \<Rightarrow> addr \<Rightarrow> c_int list option" where
  \<comment> \<open>the C function returns the address of the table inside the struct\<close>
  "fenster_bridge_get_keys h fb = map_option (\<lambda>b. keys (f b)) (get_bridge h fb)"

definition fenster_bridge_get_mod :: "heap \<Rightarrow> addr \<Rightarrow> c_int option" where
  "fenster_bridge_get_mod h fb = map_option (\<lambda>b. mod_f (f b)) (get_bridge h fb)"

definition fenster_bridge_get_size :: "heap \<Rightarrow> addr \<Rightarrow> (c_int \<times> c_int) option" where
  \<comment> \<open>the out-parameters \<open>*w\<close> and \<open>*h\<close> are returned\<close>
  "fenster_bridge_get_size h fb =
     map_option (\<lambda>b. (width (f b), height (f b))) (get_bridge h fb)"

text \<open>
  \<open>fenster_bridge_get_resized\<close> returns the flag, the two out-parameters and the store.
\<close>

definition fenster_bridge_get_resized ::
  "heap \<Rightarrow> addr \<Rightarrow> (c_int \<times> c_int \<times> c_int \<times> heap) option" where
  "fenster_bridge_get_resized h fb =
     do {
       b \<leftarrow> get_bridge h fb;
       let was_resized = resized b;
       h1 \<leftarrow> put_bridge h fb (b\<lparr>resized := 0\<rparr>);
       Some (was_resized, phys_width (f b), phys_height (f b), h1)
     }"

definition fenster_bridge_get_scale :: "heap \<Rightarrow> addr \<Rightarrow> float32 option" where
  "fenster_bridge_get_scale h fb = map_option (\<lambda>b. scale (f b)) (get_bridge h fb)"

text \<open>
  \<open>fenster_bridge_set_scale\<close>: each of the two conversions to \<open>int\<close> may be undefined,
  and then the call is.
\<close>

definition fenster_bridge_set_scale :: "heap \<Rightarrow> addr \<Rightarrow> float32 \<Rightarrow> heap option" where
  "fenster_bridge_set_scale h fb s =
     do {
       b \<leftarrow> get_bridge h fb;
       let f1 = (f b)\<lparr>scale := s\<rparr>;
       pw \<leftarrow> scale_dim (width f1) s;
       let f2 = f1\<lparr>phys_width := pw\<rparr>;
       ph \<leftarrow> scale_dim (height f2) s;
       let f3 = f2\<lparr>phys_height := ph\<rparr>;
       put_bridge h fb (b\<lparr>f := f3\<rparr>)
     }"

subsection \<open>Observations\<close>

text \<open>The bytes of the pixel buffer that the handle owns.\<close>

definition pixel_bytes :: "heap \<Rightarrow> addr \<Rightarrow> byte list option" where
  "pixel_bytes h fb =
     do {
       b \<leftarrow> get_bridge h fb;
       case h (buf b) of Some (Bytes bs) \<Rightarrow> Some bs | _ \<Rightarrow> None
     }"

text \<open>
  The buffer read as \<open>uint32_t\<close> pixels, four bytes each, least significant byte first.
\<close>

definition le32 :: "byte \<Rightarrow> byte \<Rightarrow> byte \<Rightarrow> byte \<Rightarrow> 32 word" where
  "le32 b0 b1 b2 b3 =
     ucast b0 + push_bit 8 (ucast b1) + push_bit 16 (ucast b2) + push_bit 24 (ucast b3)"

fun pixels :: "byte list \<Rightarrow> 32 word list" where
  "pixels (b0 # b1 # b2 # b3 # bs) = le32 b0 b1 b2 b3 # pixels bs"
| "pixels _ = []"

text \<open>
  The real number that a finite \<open>float\<close> stands for, truncation toward zero, and the
  case in which \<open>(int)(n * s)\<close> involves no rounding: \<open>n\<close> and the product of \<open>n\<close> with
  the significand of \<open>s\<close> have at most 24 significant bits.
\<close>

definition float_val :: "float32 \<Rightarrow> real option" where
  "float_val s =
     (case float_decode s of
        FFinite sg m e \<Rightarrow> Some ((if sg then - 1 else 1) * real m * 2 powi e)
      | _ \<Rightarrow> None)"

definition trunc_zero :: "real \<Rightarrow> int" where
  "trunc_zero x = (if 0 \<le> x then \<lfloor>x\<rfloor> else \<lceil>x\<rceil>)"

definition is_exact :: "c_int \<Rightarrow> float32 \<Rightarrow> bool" where
  "is_exact n s =
     (case float_decode s of
        FFinite sg m e \<Rightarrow>
          nat \<bar>sint n\<bar> < 2 ^ 24 \<and> 2 ^ excess (nat \<bar>sint n\<bar> * m) dvd nat \<bar>sint n\<bar> * m
      | _ \<Rightarrow> False)"

subsection \<open>Sessions\<close>

text \<open>
  A session is what a caller does with one handle between \<open>fenster_bridge_create\<close> and
  \<open>fenster_bridge_close\<close>: a list of calls, each with what the environment decides in
  it.  A call whose behaviour is undefined ends the session with \<open>None\<close>.
\<close>

datatype call =
    Open "fenster \<Rightarrow> c_int \<times> fenster" addr
  | Loop "fenster \<Rightarrow> c_int \<times> fenster" bool addr
  | GetBuf
  | CopyBuf "byte list" c_int
  | GetKeys
  | GetMod
  | GetSize
  | GetResized
  | GetScale
  | SetScale float32

fun step ::
  "platform \<Rightarrow> heap \<Rightarrow> addr \<Rightarrow> call \<Rightarrow> heap option" where
  "step plat h fb (Open lib a) = map_option snd (fenster_bridge_open lib a h fb)"
| "step plat h fb (Loop lib xok a) = map_option snd (fenster_bridge_loop plat lib xok a h fb)"
| "step plat h fb GetBuf = map_option (\<lambda>_. h) (fenster_bridge_get_buf h fb)"
| "step plat h fb (CopyBuf src n) = fenster_bridge_copy_buf h fb src n"
| "step plat h fb GetKeys = map_option (\<lambda>_. h) (fenster_bridge_get_keys h fb)"
| "step plat h fb GetMod = map_option (\<lambda>_. h) (fenster_bridge_get_mod h fb)"
| "step plat h fb GetSize = map_option (\<lambda>_. h) (fenster_bridge_get_size h fb)"
| "step plat h fb GetResized =
     map_option (\<lambda>(_, _, _, h'). h') (fenster_bridge_get_resized h fb)"
| "step plat h fb GetScale = map_option (\<lambda>_. h) (fenster_bridge_get_scale h fb)"
| "step plat h fb (SetScale s) = fenster_bridge_set_scale h fb s"

fun run ::
  "platform \<Rightarrow> heap \<Rightarrow> addr \<Rightarrow> call list \<Rightarrow> heap option" where
  "run plat h fb [] = Some h"
| "run plat h fb (c # cs) =
     (case step plat h fb c of None \<Rightarrow> None | Some h' \<Rightarrow> run plat h' fb cs)"

text \<open>
  The window library never assigns the \<open>buf\<close> member of its state: it only reads the
  pixels behind it.
\<close>

definition keeps_buf :: "(fenster \<Rightarrow> c_int \<times> fenster) \<Rightarrow> bool" where
  "keeps_buf lib = (\<forall>x. f_buf (snd (lib x)) = f_buf x)"

fun call_keeps_buf :: "call \<Rightarrow> bool" where
  "call_keeps_buf (Open lib a) = keeps_buf lib"
| "call_keeps_buf (Loop lib xok a) = keeps_buf lib"
| "call_keeps_buf _ = True"

text \<open>A library call that leaves the physical dimensions as they are.\<close>

definition keeps_phys :: "(fenster \<Rightarrow> c_int \<times> fenster) \<Rightarrow> bool" where
  "keeps_phys lib =
     (\<forall>x. phys_width (snd (lib x)) = phys_width x \<and> phys_height (snd (lib x)) = phys_height x)"

fun quiet :: "call \<Rightarrow> bool" where
  "quiet (Open lib a) = keeps_phys lib"
| "quiet (Loop lib xok a) = keeps_phys lib"
| "quiet (SetScale s) = False"
| "quiet _ = True"

text \<open>
  The one call that sets the resize flag: a \<open>fenster_bridge_loop\<close> in which the pump
  leaves physical dimensions other than the cached ones and \<open>calloc\<close> succeeds (lines 77
  to 99 of the source).
\<close>

fun sets_flag :: "heap \<Rightarrow> fenster_bridge \<Rightarrow> call \<Rightarrow> bool" where
  "sets_flag h b (Loop lib xok a) =
     (let f1 = snd (lib (f b))
      in (phys_width f1 \<noteq> prev_width b \<or> phys_height f1 \<noteq> prev_height b)
         \<and> fst (calloc a h (scast (phys_width f1) * scast (phys_height f1)) 4) \<noteq> NULL)"
| "sets_flag h b _ = False"

text \<open>
  The state of a handle that the bridge maintains: the handle is live, its buffer
  pointer is not null and points to a live block of bytes, as long as the cached
  dimensions say.
\<close>

definition bridge_ok :: "heap \<Rightarrow> addr \<Rightarrow> bool" where
  "bridge_ok h fb =
     (case get_bridge h fb of
        None \<Rightarrow> False
      | Some b \<Rightarrow>
          buf b \<noteq> NULL \<and>
          (case h (buf b) of
             Some (Bytes bs) \<Rightarrow> int (length bs) = 4 * sint (prev_width b) * sint (prev_height b)
           | _ \<Rightarrow> False))"

text \<open>The two buffer pointers of a handle, its own and the window state's, agree.\<close>

definition ptrs_agree :: "heap \<Rightarrow> addr \<Rightarrow> bool" where
  "ptrs_agree h fb =
     (case get_bridge h fb of None \<Rightarrow> False | Some b \<Rightarrow> buf b = f_buf (f b))"

text \<open>
  The resize flag is clear and the cached dimensions and the physical dimensions of the
  window state are both \<open>pw\<close> by \<open>ph\<close>.
\<close>

definition settled :: "heap \<Rightarrow> addr \<Rightarrow> c_int \<Rightarrow> c_int \<Rightarrow> bool" where
  "settled h fb pw ph =
     (case get_bridge h fb of
        None \<Rightarrow> False
      | Some b \<Rightarrow>
          resized b = 0 \<and> phys_width (f b) = pw \<and> phys_height (f b) = ph
          \<and> prev_width b = pw \<and> prev_height b = ph)"

text \<open>
  Sizes in bytes: of the block behind the buffer pointer, of a buffer for the physical
  dimensions of the window state, and of a buffer for the cached dimensions.
\<close>

definition buf_size :: "heap \<Rightarrow> addr \<Rightarrow> int option" where
  "buf_size h fb = map_option (\<lambda>bs. int (length bs)) (pixel_bytes h fb)"

definition phys_size :: "heap \<Rightarrow> addr \<Rightarrow> int option" where
  "phys_size h fb =
     map_option (\<lambda>b. sint (phys_width (f b)) * sint (phys_height (f b)) * 4) (get_bridge h fb)"

definition cached_size :: "heap \<Rightarrow> addr \<Rightarrow> int option" where
  "cached_size h fb =
     map_option (\<lambda>b. sint (prev_width b) * sint (prev_height b) * 4) (get_bridge h fb)"

text \<open>The cached dimensions are the physical dimensions of the window state.\<close>

definition in_sync :: "heap \<Rightarrow> addr \<Rightarrow> bool" where
  "in_sync h fb =
     (case get_bridge h fb of
        None \<Rightarrow> False
      | Some b \<Rightarrow> phys_width (f b) = prev_width b \<and> phys_height (f b) = prev_height b)"

subsection \<open>A sample session\<close>

text \<open>
  A 2 by 2 window created in the empty store, with the handle at address 1, the pixel
  buffer at 2 and the title copy at 3; a display of scale 1 and one of scale 2.
\<close>

definition demo_bridge :: fenster_bridge where
  "demo_bridge = \<lparr>f = zero_fenster\<lparr>title := 3, width := 2, height := 2, f_buf := 2\<rparr>,
     buf = 2, title_copy = 3, resized = 0, prev_width = 2, prev_height = 2,
     prev_scale = one_f\<rparr>"

definition demo_heap :: heap where
  "demo_heap =
     [1 \<mapsto> Bridge demo_bridge, 2 \<mapsto> Bytes (replicate 16 0), 3 \<mapsto> CString ''demo'']"

definition two_f :: float32 where
  \<comment> \<open>the literal \<open>2.0f\<close>\<close>
  "two_f = 0x40000000"

definition lib_1x :: "fenster \<Rightarrow> c_int \<times> fenster" where
  "lib_1x x = (0, x\<lparr>phys_width := width x, phys_height := height x, scale := one_f\<rparr>)"

definition lib_2x :: "fenster \<Rightarrow> c_int \<times> fenster" where
  "lib_2x x =
     (0, x\<lparr>phys_width := 2 * width x, phys_height := 2 * height x, scale := two_f\<rparr>)"

definition lib_fail :: "fenster \<Rightarrow> c_int \<times> fenster" where
  "lib_fail x = (-1, x)"

definition lib_idle :: "fenster \<Rightarrow> c_int \<times> fenster" where
  "lib_idle x = (0, x)"

definition five_quarters_f :: float32 where
  \<comment> \<open>the literal \<open>1.25f\<close>\<close>
  "five_quarters_f = 0x3FA00000"

definition nan_f :: float32 where
  \<comment> \<open>a quiet NaN\<close>
  "nan_f = 0x7FC00000"

text \<open>A library call that changes the scale and nothing else.\<close>

definition lib_rescale :: "fenster \<Rightarrow> c_int \<times> fenster" where
  "lib_rescale x = (0, x\<lparr>scale := two_f\<rparr>)"

text \<open>The sample handle after the library has reported a display of scale 2.\<close>

definition demo_bridge_2x :: fenster_bridge where
  "demo_bridge_2x = demo_bridge\<lparr>f := (f demo_bridge)\<lparr>phys_width := 4, phys_height := 4,
     scale := two_f\<rparr>\<rparr>"

text \<open>
  Another course of the sample: the window is opened on a display of scale 1; then the
  display changes to scale 2 while \<open>calloc\<close> fails in \<open>fenster_bridge_loop\<close>; then a later
  loop call, in which nothing changes, reallocates at address 4 and sets the flag; then
  the flag is read.
\<close>

definition demo_bridge_open :: fenster_bridge where
  "demo_bridge_open = demo_bridge\<lparr>f := (f demo_bridge)\<lparr>phys_width := 2, phys_height := 2,
     scale := one_f\<rparr>\<rparr>"

definition demo_heap_open :: heap where
  "demo_heap_open = demo_heap(1 \<mapsto> Bridge demo_bridge_open)"

definition demo_bridge_moved :: fenster_bridge where
  "demo_bridge_moved = demo_bridge_open\<lparr>f := (f demo_bridge_open)\<lparr>phys_width := 4,
     phys_height := 4, scale := two_f\<rparr>\<rparr>"

definition demo_heap_moved :: heap where
  "demo_heap_moved = demo_heap(1 \<mapsto> Bridge demo_bridge_moved)"

definition demo_bridge_late :: fenster_bridge where
  "demo_bridge_late = demo_bridge_moved\<lparr>f := (f demo_bridge_moved)\<lparr>f_buf := 4\<rparr>, buf := 4,
     resized := 1, prev_width := 4, prev_height := 4, prev_scale := two_f\<rparr>"

definition demo_heap_late :: heap where
  "demo_heap_late =
     demo_heap(4 \<mapsto> Bytes (replicate 64 0), 2 := None, 1 \<mapsto> Bridge demo_bridge_late)"

definition demo_heap_done :: heap where
  "demo_heap_done =
     demo_heap(4 \<mapsto> Bytes (replicate 64 0), 2 := None,
       1 \<mapsto> Bridge (demo_bridge_late\<lparr>resized := 0\<rparr>))"

text \<open>The sample store after the buffer has been reallocated for that display, at address 4.\<close>

definition demo_heap_2x :: heap where
  "demo_heap_2x =
     demo_heap(4 \<mapsto> Bytes (replicate 64 0), 2 := None,
       1 \<mapsto> Bridge (demo_bridge_2x\<lparr>f := (f demo_bridge_2x)\<lparr>f_buf := 4\<rparr>, buf := 4,
                         prev_width := 4, prev_height := 4, prev_scale := two_f\<rparr>))"

section \<open>Properties\<close>

subsection \<open>Arithmetic of the allocation size\<close>

lemma sint_bounds32: "- (2 ^ 31) \<le> sint (w :: c_int) \<and> sint w < 2 ^ 31"
  using sint_ge [of w] sint_lt [of w] by simp

lemma uint_scast_64: "uint (scast (w :: c_int) :: size_t) = sint w mod 2 ^ 64"
proof -
  have "(scast w :: size_t) = word_of_int (sint w)"
    by (rule scast_eq)
  then have "uint (scast w :: size_t) = take_bit 64 (sint w)"
    by (simp only: uint_word_of_int_eq len_bit0 len_num1 One_nat_def) simp
  then show ?thesis
    by (simp only: take_bit_eq_mod)
qed

lemma uint_pixels:
  "uint (scast (w :: c_int) * scast (hh :: c_int) :: size_t) = (sint w * sint hh) mod 2 ^ 64"
  by (simp add: uint_word_ariths uint_scast_64 mod_mult_eq)

lemma prod_bound:
  fixes x y :: int
  assumes "- (2 ^ 31) \<le> x" "x < 2 ^ 31" "- (2 ^ 31) \<le> y" "y < 2 ^ 31"
  shows "\<bar>x * y\<bar> \<le> 2 ^ 62"
proof -
  have "\<bar>x\<bar> \<le> 2 ^ 31" "\<bar>y\<bar> \<le> 2 ^ 31"
    using assms by auto
  then have "\<bar>x\<bar> * \<bar>y\<bar> \<le> 2 ^ 31 * 2 ^ 31"
    by (intro mult_mono) auto
  then show ?thesis
    by (simp add: abs_mult)
qed

text \<open>
  When \<open>calloc\<close> accepts the request, the \<open>size_t\<close> product of the two dimensions
  has not wrapped: it is the product of the two \<open>int\<close> values.
\<close>

lemma pixel_count_exact:
  fixes w hh :: c_int
  assumes "unat (scast w * scast hh :: size_t) * 4 < 2 ^ 64"
  shows "int (unat (scast w * scast hh :: size_t)) = sint w * sint hh"
proof -
  let ?p = "sint w * sint hh"
  have b: "\<bar>?p\<bar> \<le> 2 ^ 62"
    using prod_bound sint_bounds32 by blast
  have u: "int (unat (scast w * scast hh :: size_t)) = ?p mod 2 ^ 64"
    using uint_pixels [of w hh] by simp
  have "unat (scast w * scast hh :: size_t) < 2 ^ 62"
    using assms by simp
  then have "int (unat (scast w * scast hh :: size_t)) < 2 ^ 62"
    by (metis of_nat_less_iff of_nat_numeral of_nat_power)
  then have lt: "?p mod 2 ^ 64 < 2 ^ 62"
    using u by simp
  show ?thesis
  proof (cases "0 \<le> ?p")
    case True
    then have "?p mod 2 ^ 64 = ?p"
      using b by (intro mod_pos_pos_trivial) auto
    then show ?thesis
      using u by simp
  next
    case False
    then have "(?p + 2 ^ 64) mod 2 ^ 64 = ?p + 2 ^ 64"
      using b by (intro mod_pos_pos_trivial) auto
    then have "?p mod 2 ^ 64 = ?p + 2 ^ 64"
      by simp
    with lt b have False
      by simp
    then show ?thesis ..
  qed
qed

subsection \<open>The store\<close>

lemma get_bridge_Some:
  "get_bridge h fb = Some b \<longleftrightarrow> fb \<noteq> NULL \<and> h fb = Some (Bridge b)"
  by (auto simp: get_bridge_def split: option.splits obj.splits)

lemma put_bridge_Some:
  "get_bridge h fb = Some b \<Longrightarrow> put_bridge h fb b' = Some (h(fb \<mapsto> Bridge b'))"
  by (simp add: put_bridge_def)

lemma demo_get: "get_bridge demo_heap 1 = Some demo_bridge"
  by (simp add: get_bridge_def demo_heap_def)

lemma demo_create: "fenster_bridge_create 1 2 3 Map.empty ''demo'' 2 2 = Some (1, demo_heap)"
  by (auto simp: fenster_bridge_create_def calloc_bridge_def calloc_def strdup_def
      put_bridge_def get_bridge_def demo_heap_def demo_bridge_def zero_bridge_def fun_eq_iff)

subsection \<open>Failure of the library's open routine\<close>

text \<open>
  C3.  When the window library's open routine returns a status other than 0,
  \<open>fenster_bridge_open\<close> returns that status.  The store afterwards is the store before
  with the embedded window state replaced by what the library left there: no block
  is allocated or released, and the buffer pointer, the cached width and height and the
  cached scale of the handle are as before.
\<close>

theorem open_failure_atomic:
  assumes "get_bridge h fb = Some b" and "fenster_open (f b) = (r, f1)" and "r \<noteq> 0"
  shows "fenster_bridge_open fenster_open a h fb = Some (r, h(fb \<mapsto> Bridge (b\<lparr>f := f1\<rparr>)))
       \<and> buf (b\<lparr>f := f1\<rparr>) = buf b
       \<and> prev_width (b\<lparr>f := f1\<rparr>) = prev_width b
       \<and> prev_height (b\<lparr>f := f1\<rparr>) = prev_height b
       \<and> prev_scale (b\<lparr>f := f1\<rparr>) = prev_scale b"
  using assms by (simp add: fenster_bridge_open_def put_bridge_Some)

theorem open_failure_atomic_witness:
  "fenster_bridge_open lib_fail 4 demo_heap 1 = Some (- 1, demo_heap)"
proof -
  have "demo_heap(1 \<mapsto> Bridge (demo_bridge\<lparr>f := f demo_bridge\<rparr>)) = demo_heap"
    by (auto simp: demo_heap_def)
  then show ?thesis
    using open_failure_atomic [OF demo_get, of lib_fail "- 1" "f demo_bridge" 4]
    by (simp add: lib_fail_def)
qed

subsection \<open>Overriding the scale\<close>

lemma excess_small: "n < 2 ^ 24 \<Longrightarrow> excess n = 0"
  by (simp add: excess.simps)

lemma round_even_0: "round_even n 0 = n"
  by (simp add: round_even_def)

lemma float_decode_exp:
  "float_decode s = FFinite sg m e \<Longrightarrow> - 149 \<le> e \<and> e \<le> 104 \<and> m < 2 ^ 24"
  by (auto simp: float_decode_def Let_def split: if_splits)

text \<open>A value of at most 24 significant bits and a binary32 exponent is not rounded.\<close>

lemma float_round_small:
  assumes "n < 2 ^ 24" and "- 149 \<le> e" and "e \<le> 104"
  shows "float_round sg n e = FFinite sg n e"
proof -
  have k: "max (excess n) (nat (- 149 - e)) = 0"
    using assms by (simp add: excess_small)
  have "\<not> (0 \<le> e \<and> (2::nat) ^ 128 \<le> n * 2 ^ nat e)"
  proof
    assume a: "0 \<le> e \<and> (2::nat) ^ 128 \<le> n * 2 ^ nat e"
    then have "nat e \<le> 104"
      using assms(3) by simp
    then have "(2::nat) ^ nat e \<le> 2 ^ 104"
      by (intro power_increasing) simp_all
    then have "n * 2 ^ nat e < 2 ^ 24 * 2 ^ 104"
      using assms(1) by (intro mult_less_le_imp_less) simp_all
    then show False
      using a by simp
  qed
  then show ?thesis
    by (simp add: float_round_def k round_even_0 Let_def del: One_nat_def)
qed

lemma floor_dyadic:
  "\<lfloor>real n * 2 powi e\<rfloor> = (if 0 \<le> e then int (n * 2 ^ nat e) else int (n div 2 ^ nat (- e)))"
proof (cases "0 \<le> e")
  case True
  then have "(2::real) powi e = 2 ^ nat e"
    by (simp add: power_int_def)
  then have "real n * 2 powi e = of_int (int (n * 2 ^ nat e))"
    by simp
  then show ?thesis
    using True by (simp only: floor_of_int if_True)
next
  case False
  then have "(2::real) powi e = 1 / 2 ^ nat (- e)"
    by (simp add: power_int_def field_simps)
  then have "real n * 2 powi e = real n / real (2 ^ nat (- e))"
    by simp
  then have "\<lfloor>real n * 2 powi e\<rfloor> = int (n div 2 ^ nat (- e))"
    by (simp only: floor_divide_of_nat_eq)
  then show ?thesis
    using False by simp
qed

lemma trunc_zero_signed:
  fixes y :: real
  assumes "0 \<le> y"
  shows "trunc_zero (if sg then - y else y) = (if sg then - \<lfloor>y\<rfloor> else \<lfloor>y\<rfloor>)"
proof (cases "sg \<and> y \<noteq> 0")
  case True
  then have "- y < 0"
    using assms by linarith
  then have "trunc_zero (- y) = \<lceil>- y\<rceil>"
    by (simp add: trunc_zero_def)
  also have "\<dots> = - \<lfloor>y\<rfloor>"
    by (simp add: ceiling_def)
  finally show ?thesis
    using True by simp
next
  case False
  then show ?thesis
    using assms by (auto simp: trunc_zero_def)
qed

lemma float_round_exact:
  assumes "- 149 \<le> e" and "2 ^ excess n dvd n"
  shows "float_round sg n e =
     (let q = n div 2 ^ excess n; e' = e + int (excess n)
      in if 0 \<le> e' \<and> 2 ^ 128 \<le> q * 2 ^ nat e' then FInf sg else FFinite sg q e')"
proof -
  have k: "max (excess n) (nat (- 149 - e)) = excess n"
    using assms(1) by simp
  have r: "round_even n (excess n) = n div 2 ^ excess n"
    using assms(2) by (simp add: round_even_def Let_def mod_eq_0_iff_dvd)
  show ?thesis
    unfolding float_round_def k Let_def r ..
qed

lemma dyadic_shift:
  assumes "2 ^ k dvd (n::nat)"
  shows "real n * 2 powi e = real (n div 2 ^ k) * 2 powi (e + int k)"
proof -
  have "real n = real (n div 2 ^ k) * 2 ^ k"
    using assms by (metis dvd_div_mult_self of_nat_mult of_nat_numeral of_nat_power)
  moreover have "(2::real) powi (e + int k) = 2 powi e * 2 ^ k"
    by (simp add: power_int_add)
  ultimately show ?thesis
    by simp
qed

text \<open>
  Without rounding, \<open>(int)(n * s)\<close> is the product of \<open>n\<close> and the value of \<open>s\<close>, truncated
  toward zero, and undefined when that is not an \<open>int\<close>.
\<close>

lemma scale_dim_exact:
  assumes "is_exact n s" and "float_val s = Some v"
  shows "scale_dim n s =
     (let t = trunc_zero (real_of_int (sint n) * v)
      in if - (2 ^ 31) \<le> t \<and> t < 2 ^ 31 then Some (word_of_int t) else None)"
proof -
  define i where "i = sint n"
  from assms(1) obtain sg m e where d: "float_decode s = FFinite sg m e"
    and a: "nat \<bar>i\<bar> < 2 ^ 24" and am: "2 ^ excess (nat \<bar>i\<bar> * m) dvd nat \<bar>i\<bar> * m"
    by (auto simp: is_exact_def i_def split: fval.splits)
  let ?a = "nat \<bar>i\<bar>"
  define neg where "neg = ((i < 0) \<noteq> sg)"
  define q where "q = ?a * m div 2 ^ excess (?a * m)"
  define e' where "e' = e + int (excess (?a * m))"
  define t where "t = (if 0 \<le> e' then q * 2 ^ nat e' else q div 2 ^ nat (- e'))"
  let ?y = "real q * 2 powi e'"
  have e: "- 149 \<le> e" "e \<le> 104"
    using float_decode_exp [OF d] by simp_all
  have v: "v = (if sg then - 1 else 1) * real m * 2 powi e"
    using assms(2) d by (simp add: float_val_def)
  have 1: "float_of_int n = FFinite (i < 0) ?a 0"
    using a by (simp add: float_of_int_def float_round_small i_def)
  have 2: "float_mul (float_of_int n) (float_decode s) =
      (if 0 \<le> e' \<and> 2 ^ 128 \<le> q * 2 ^ nat e' then FInf neg else FFinite neg q e')"
    using float_round_exact [OF e(1) am, of neg] by (simp add: 1 d q_def e'_def neg_def Let_def)
  have y0: "0 \<le> ?y"
    by simp
  have fl: "\<lfloor>?y\<rfloor> = int t"
    unfolding t_def by (simp only: floor_dyadic) simp
  have n: "real_of_int i = (if i < 0 then - 1 else 1) * real ?a"
    by simp
  have sh: "real (?a * m) * 2 powi e = ?y"
    unfolding q_def e'_def using am by (rule dyadic_shift)
  have "real_of_int i * v = (if neg then - (real (?a * m) * 2 powi e) else real (?a * m) * 2 powi e)"
    unfolding n v neg_def by simp
  then have x: "real_of_int i * v = (if neg then - ?y else ?y)"
    unfolding sh .
  have tr: "trunc_zero (real_of_int i * v) = (if neg then - int t else int t)"
    unfolding x using trunc_zero_signed [OF y0, of neg] fl by simp
  have r: "scale_dim n s =
      (let t = trunc_zero (real_of_int i * v)
       in if - (2 ^ 31) \<le> t \<and> t < 2 ^ 31 then Some (word_of_int t) else None)"
  proof (cases "0 \<le> e' \<and> 2 ^ 128 \<le> q * 2 ^ nat e'")
    case True
    then have "(2::nat) ^ 128 \<le> t"
      by (simp add: t_def)
    then have "(2::nat) ^ 31 < t"
      by simp
    then have "int (2 ^ 31) < int t"
      by (simp only: of_nat_less_iff)
    then have big: "2 ^ 31 < int t"
      by simp
    have "scale_dim n s = None"
      using True by (simp add: scale_dim_def 2)
    moreover have "\<not> (- (2 ^ 31) \<le> (if neg then - int t else int t)
         \<and> (if neg then - int t else int t) < 2 ^ 31)"
      using big by (cases neg) simp_all
    ultimately show ?thesis
      unfolding tr Let_def by simp
  next
    case False
    then have "scale_dim n s =
      (if neg then (if t \<le> 2 ^ 31 then Some (word_of_int (- int t)) else None)
       else (if t < 2 ^ 31 then Some (word_of_int (int t)) else None))"
      by (simp add: scale_dim_def 2 Let_def t_def)
    also have "\<dots> = (let t = trunc_zero (real_of_int i * v)
      in if - (2 ^ 31) \<le> t \<and> t < 2 ^ 31 then Some (word_of_int t) else None)"
      unfolding tr Let_def by (cases neg) auto
    finally show ?thesis .
  qed
  show ?thesis
    using r unfolding i_def .
qed

lemma scale_dim_exact_cases:
  assumes "is_exact n s" and "float_val s = Some v"
  shows "let t = trunc_zero (real_of_int (sint n) * v)
     in if - (2 ^ 31) \<le> t \<and> t < 2 ^ 31 then (\<exists>pw. scale_dim n s = Some pw \<and> sint pw = t)
        else scale_dim n s = None"
  using scale_dim_exact [OF assms]
  by (simp add: Let_def sint_sbintrunc' signed_take_bit_int_eq_self)

text \<open>The product with a NaN or an infinity does not convert.\<close>

lemma scale_dim_nonfinite: "float_val s = None \<Longrightarrow> scale_dim n s = None"
  by (cases "float_of_int n"; cases "float_decode s") (simp_all add: scale_dim_def float_val_def)

lemma set_scale_eq:
  assumes "get_bridge h fb = Some b" and "scale_dim (width (f b)) s = Some pw"
    and "scale_dim (height (f b)) s = Some ph"
  shows "fenster_bridge_set_scale h fb s
     = Some (h(fb \<mapsto> Bridge (b\<lparr>f := (f b)\<lparr>scale := s, phys_width := pw, phys_height := ph\<rparr>\<rparr>)))"
  using assms by (simp add: fenster_bridge_set_scale_def put_bridge_Some Let_def)

lemma set_scale_undefined:
  assumes "scale_dim (width (f b)) s = None \<or> scale_dim (height (f b)) s = None"
    and "get_bridge h fb = Some b"
  shows "fenster_bridge_set_scale h fb s = None"
  using assms by (auto simp: fenster_bridge_set_scale_def Let_def split: Option.bind_splits)

lemma set_scale_cases:
  assumes "get_bridge h fb = Some b" and "fenster_bridge_set_scale h fb s = Some h'"
  obtains pw ph where
    "h' = h(fb \<mapsto> Bridge (b\<lparr>f := (f b)\<lparr>scale := s, phys_width := pw, phys_height := ph\<rparr>\<rparr>))"
  using assms
  by (auto simp: fenster_bridge_set_scale_def put_bridge_Some Let_def split: Option.bind_splits)

lemma demo_decode:
  "float_decode two_f = FFinite False (2 ^ 23) (- 22)"
  "float_decode five_quarters_f = FFinite False (2 ^ 23 + 2 ^ 21) (- 23)"
  "float_decode nan_f = FNaN"
  by (simp_all add: float_decode_def Let_def two_f_def five_quarters_f_def nan_f_def)

lemma demo_excess: "excess 16777216 = 1" "excess 20971520 = 1"
  by (simp_all add: excess.simps)

lemma demo_scale_dim:
  "scale_dim 2 two_f = Some 4" "scale_dim 2 five_quarters_f = Some 2" "scale_dim 2 nan_f = None"
  by (simp_all add: scale_dim_def float_of_int_def float_decode_def float_round_def
      round_even_def excess.simps Let_def two_f_def five_quarters_f_def nan_f_def)

lemma demo_float_val: "float_val two_f = Some 2" "float_val five_quarters_f = Some (5 / 4)"
  by (simp_all add: float_val_def demo_decode power_int_def power_divide)

lemma demo_is_exact: "is_exact 2 two_f" "is_exact 2 five_quarters_f"
  by (simp_all add: is_exact_def demo_decode demo_excess)

text \<open>
  C7, as claimed, fails.  For a NaN the conversion \<open>(int)(n * s)\<close> is undefined, and so
  is the call.  For the scale \<open>1.25f\<close> on the 2 by 2 window the physical size becomes
  2 by 2: the product 2.5 is truncated.
\<close>

theorem set_scale_counterexample:
  "fenster_bridge_create 1 2 3 Map.empty ''demo'' 2 2 = Some (1, demo_heap)
   \<and> fenster_bridge_set_scale demo_heap 1 nan_f = None
   \<and> fenster_bridge_set_scale demo_heap 1 five_quarters_f
       = Some (demo_heap(1 \<mapsto> Bridge (demo_bridge\<lparr>f := (f demo_bridge)\<lparr>scale := five_quarters_f,
                                    phys_width := 2, phys_height := 2\<rparr>\<rparr>)))
   \<and> width (f demo_bridge) = 2 \<and> height (f demo_bridge) = 2
   \<and> float_val five_quarters_f = Some (5 / 4)"
proof -
  have d: "width (f demo_bridge) = 2" "height (f demo_bridge) = 2"
    by (simp_all add: demo_bridge_def)
  have 1: "fenster_bridge_set_scale demo_heap 1 nan_f = None"
    using set_scale_undefined [OF _ demo_get, of nan_f] by (simp add: d demo_scale_dim)
  have 2: "fenster_bridge_set_scale demo_heap 1 five_quarters_f
       = Some (demo_heap(1 \<mapsto> Bridge (demo_bridge\<lparr>f := (f demo_bridge)\<lparr>scale := five_quarters_f,
                                    phys_width := 2, phys_height := 2\<rparr>\<rparr>)))"
    using set_scale_eq [OF demo_get, of five_quarters_f 2 2] by (simp add: d demo_scale_dim)
  show ?thesis
    using demo_create 1 2 d demo_float_val(2) by (intro conjI)
qed

text \<open>
  C7, amended.  \<open>fenster_bridge_set_scale\<close> with a scale \<open>s\<close> is undefined when one of the
  conversions \<open>(int)(width * s)\<close> and \<open>(int)(height * s)\<close> is, which is the case for every
  NaN and infinity.  Otherwise it stores \<open>s\<close> as the scale of the window state and sets
  the physical width and height to the values of these two expressions, and nothing
  else changes: the store keeps every other object, no block is allocated or released,
  and the handle keeps its buffer pointers, logical size, resize flag, cached
  dimensions and every other member.  The value of \<open>(int)(n * s)\<close> is the binary32
  product truncated toward zero; where \<open>n\<close> and the product have at most 24 significant
  bits, so that nothing is rounded, it is the product of \<open>n\<close> and the value of \<open>s\<close>,
  truncated toward zero, and the conversion is undefined exactly when that is not an
  \<open>int\<close>.
\<close>

theorem set_scale_frame:
  assumes "get_bridge h fb = Some b"
  shows
    "(scale_dim (width (f b)) s = None \<or> scale_dim (height (f b)) s = None \<longrightarrow>
        fenster_bridge_set_scale h fb s = None)
     \<and> (float_val s = None \<longrightarrow> fenster_bridge_set_scale h fb s = None)
     \<and> (scale_dim (width (f b)) s = Some pw \<and> scale_dim (height (f b)) s = Some ph \<longrightarrow>
        (\<exists>b'. fenster_bridge_set_scale h fb s = Some (h(fb \<mapsto> Bridge b'))
           \<and> b' = b\<lparr>f := (f b)\<lparr>scale := s, phys_width := pw, phys_height := ph\<rparr>\<rparr>
           \<and> scale (f b') = s \<and> phys_width (f b') = pw \<and> phys_height (f b') = ph
           \<and> width (f b') = width (f b) \<and> height (f b') = height (f b)
           \<and> f_buf (f b') = f_buf (f b) \<and> title (f b') = title (f b)
           \<and> keys (f b') = keys (f b) \<and> mod_f (f b') = mod_f (f b) \<and> img (f b') = img (f b)
           \<and> buf b' = buf b \<and> title_copy b' = title_copy b \<and> resized b' = resized b
           \<and> prev_width b' = prev_width b \<and> prev_height b' = prev_height b
           \<and> prev_scale b' = prev_scale b))
     \<and> (is_exact (width (f b)) s \<and> float_val s = Some v \<longrightarrow>
        (let t = trunc_zero (real_of_int (sint (width (f b))) * v)
         in if - (2 ^ 31) \<le> t \<and> t < 2 ^ 31
            then (\<exists>pw. scale_dim (width (f b)) s = Some pw \<and> sint pw = t)
            else scale_dim (width (f b)) s = None))
     \<and> (is_exact (height (f b)) s \<and> float_val s = Some v \<longrightarrow>
        (let t = trunc_zero (real_of_int (sint (height (f b))) * v)
         in if - (2 ^ 31) \<le> t \<and> t < 2 ^ 31
            then (\<exists>ph. scale_dim (height (f b)) s = Some ph \<and> sint ph = t)
            else scale_dim (height (f b)) s = None))"
    (is "?undef \<and> ?nonfinite \<and> ?frame \<and> ?w \<and> ?h")
proof -
  have undef: ?undef
    using set_scale_undefined [OF _ assms] by blast
  have nonfinite: ?nonfinite
    using set_scale_undefined [OF _ assms] scale_dim_nonfinite by blast
  have frame: ?frame
  proof
    assume "scale_dim (width (f b)) s = Some pw \<and> scale_dim (height (f b)) s = Some ph"
    then have "fenster_bridge_set_scale h fb s
        = Some (h(fb \<mapsto> Bridge (b\<lparr>f := (f b)\<lparr>scale := s, phys_width := pw, phys_height := ph\<rparr>\<rparr>)))"
      using set_scale_eq [OF assms] by blast
    then show "\<exists>b'. fenster_bridge_set_scale h fb s = Some (h(fb \<mapsto> Bridge b'))
           \<and> b' = b\<lparr>f := (f b)\<lparr>scale := s, phys_width := pw, phys_height := ph\<rparr>\<rparr>
           \<and> scale (f b') = s \<and> phys_width (f b') = pw \<and> phys_height (f b') = ph
           \<and> width (f b') = width (f b) \<and> height (f b') = height (f b)
           \<and> f_buf (f b') = f_buf (f b) \<and> title (f b') = title (f b)
           \<and> keys (f b') = keys (f b) \<and> mod_f (f b') = mod_f (f b) \<and> img (f b') = img (f b)
           \<and> buf b' = buf b \<and> title_copy b' = title_copy b \<and> resized b' = resized b
           \<and> prev_width b' = prev_width b \<and> prev_height b' = prev_height b
           \<and> prev_scale b' = prev_scale b"
      by simp
  qed
  have w: ?w
    using scale_dim_exact_cases [of "width (f b)" s v] by blast
  have h: ?h
    using scale_dim_exact_cases [of "height (f b)" s v] by blast
  show ?thesis
    by (rule conjI [OF undef conjI [OF nonfinite conjI [OF frame conjI [OF w h]]]])
qed

theorem set_scale_frame_witness:
  "fenster_bridge_set_scale demo_heap 1 nan_f = None
   \<and> (\<exists>b'. fenster_bridge_set_scale demo_heap 1 two_f = Some (demo_heap(1 \<mapsto> Bridge b'))
       \<and> scale (f b') = two_f \<and> phys_width (f b') = 4 \<and> phys_height (f b') = 4
       \<and> width (f b') = 2 \<and> height (f b') = 2 \<and> buf b' = 2 \<and> f_buf (f b') = 2
       \<and> resized b' = 0 \<and> prev_width b' = 2 \<and> prev_height b' = 2)
   \<and> (\<exists>pw. scale_dim 2 two_f = Some pw \<and> sint pw = 4)"
proof -
  have d: "width (f demo_bridge) = 2" "height (f demo_bridge) = 2"
    by (simp_all add: demo_bridge_def)
  have v: "float_val nan_f = None"
    by (simp add: float_val_def demo_decode)
  note two = set_scale_frame [OF demo_get, where s = two_f and pw = 4 and ph = 4 and v = 2]
  have 1: "fenster_bridge_set_scale demo_heap 1 nan_f = None"
    using set_scale_frame [OF demo_get, where s = nan_f, THEN conjunct2, THEN conjunct1] v
    by simp
  have "\<exists>b'. fenster_bridge_set_scale demo_heap 1 two_f = Some (demo_heap(1 \<mapsto> Bridge b'))
       \<and> b' = demo_bridge\<lparr>f := (f demo_bridge)\<lparr>scale := two_f, phys_width := 4, phys_height := 4\<rparr>\<rparr>"
    using two [THEN conjunct2, THEN conjunct2, THEN conjunct1] demo_scale_dim(1)
    by (simp only: d) blast
  then have 2: "\<exists>b'. fenster_bridge_set_scale demo_heap 1 two_f = Some (demo_heap(1 \<mapsto> Bridge b'))
       \<and> scale (f b') = two_f \<and> phys_width (f b') = 4 \<and> phys_height (f b') = 4
       \<and> width (f b') = 2 \<and> height (f b') = 2 \<and> buf b' = 2 \<and> f_buf (f b') = 2
       \<and> resized b' = 0 \<and> prev_width b' = 2 \<and> prev_height b' = 2"
    by (auto simp: demo_bridge_def)
  have "let t = trunc_zero (real_of_int (sint (2 :: c_int)) * 2)
     in if - (2 ^ 31) \<le> t \<and> t < 2 ^ 31 then (\<exists>pw. scale_dim 2 two_f = Some pw \<and> sint pw = t)
        else scale_dim 2 two_f = None"
    using two [THEN conjunct2, THEN conjunct2, THEN conjunct2, THEN conjunct1]
      demo_is_exact(1) demo_float_val(1)
    by (simp only: d)
  then have 3: "\<exists>pw. scale_dim 2 two_f = Some pw \<and> sint pw = 4"
    by (simp add: trunc_zero_def Let_def)
  show ?thesis
    using 1 2 3 by (intro conjI)
qed

subsection \<open>Allocation\<close>

lemma calloc_NULL: "fst (calloc a h n sz) = NULL \<Longrightarrow> calloc a h n sz = (NULL, h)"
  by (simp add: calloc_def split: if_splits)

lemma calloc_ok:
  "fst (calloc a h n sz) \<noteq> NULL \<Longrightarrow>
     calloc a h n sz = (a, h(a \<mapsto> Bytes (replicate (unat n * unat sz) 0)))
     \<and> a \<noteq> NULL \<and> h a = None \<and> unat n * unat sz < 2 ^ 64"
  by (simp add: calloc_def split: if_splits)

lemma calloc_bridge_NULL: "fst (calloc_bridge a h) = NULL \<Longrightarrow> calloc_bridge a h = (NULL, h)"
  by (simp add: calloc_bridge_def split: if_splits)

lemma calloc_bridge_ok:
  "fst (calloc_bridge a h) \<noteq> NULL \<Longrightarrow>
     calloc_bridge a h = (a, h(a \<mapsto> Bridge zero_bridge)) \<and> a \<noteq> NULL \<and> h a = None"
  by (simp add: calloc_bridge_def split: if_splits)

lemma strdup_cases:
  "strdup a h s = (NULL, h) \<or> (a \<noteq> NULL \<and> h a = None \<and> strdup a h s = (a, h(a \<mapsto> CString s)))"
  by (simp add: strdup_def)

lemma free_Some:
  "free h p = Some h2 \<longleftrightarrow> (p = NULL \<and> h2 = h) \<or> (p \<noteq> NULL \<and> h p \<noteq> None \<and> h2 = h(p := None))"
  by (auto simp: free_def split: option.splits)

lemma free_fresh: "a \<noteq> NULL \<Longrightarrow> h a = None \<Longrightarrow> free (h(a \<mapsto> x)) a = Some h"
  by (auto simp: free_def fun_eq_iff)

lemma byte_count:
  fixes w hh :: c_int
  assumes "unat (scast w * scast hh :: size_t) * unat (4 :: size_t) < 2 ^ 64"
  shows "unat (scast w * scast hh :: size_t) * unat (4 :: size_t) = 4 * nat (sint w * sint hh)"
proof -
  have lt: "unat (scast w * scast hh :: size_t) * 4 < 2 ^ 64"
    using assms by simp
  have "int (unat (scast w * scast hh :: size_t)) = sint w * sint hh"
    by (rule pixel_count_exact [OF lt])
  then have "unat (scast w * scast hh :: size_t) = nat (sint w * sint hh)"
    by linarith
  then show ?thesis
    by simp
qed

subsection \<open>Creating a handle\<close>

text \<open>
  C8.  \<open>fenster_bridge_create\<close> returns null when the allocation of the handle fails and
  when the allocation of the pixel buffer fails; in both cases the store is as before the
  call, so the handle has been released.  When both allocations succeed it returns the
  handle, whose cached width and height are the requested ones, whose cached scale is
  \<open>1.0f\<close>, whose resize flag is 0, and whose window state holds the requested logical
  width and height, the pointer to the title copy (null when \<open>strdup\<close> failed, else a
  fresh string equal to the title) and the buffer pointer; the buffer has
  \<open>4 * w * h\<close> zero bytes and no other object of the store is touched.
\<close>

theorem create_result:
  "(fst (calloc_bridge a1 h) = NULL \<longrightarrow>
      fenster_bridge_create a1 a2 a3 h ttl w hh = Some (NULL, h))
   \<and> (fst (calloc_bridge a1 h) \<noteq> NULL
        \<and> fst (calloc a2 (snd (calloc_bridge a1 h)) (scast w * scast hh) 4) = NULL \<longrightarrow>
      fenster_bridge_create a1 a2 a3 h ttl w hh = Some (NULL, h))
   \<and> (fst (calloc_bridge a1 h) \<noteq> NULL
        \<and> fst (calloc a2 (snd (calloc_bridge a1 h)) (scast w * scast hh) 4) \<noteq> NULL \<longrightarrow>
      (\<exists>h' b. fenster_bridge_create a1 a2 a3 h ttl w hh = Some (a1, h')
         \<and> a1 \<noteq> NULL \<and> get_bridge h' a1 = Some b
         \<and> prev_width b = w \<and> prev_height b = hh \<and> prev_scale b = one_f \<and> resized b = 0
         \<and> width (f b) = w \<and> height (f b) = hh
         \<and> title (f b) = title_copy b
         \<and> (title_copy b = NULL \<or> title_copy b = a3 \<and> h' a3 = Some (CString ttl))
         \<and> f_buf (f b) = buf b \<and> buf b = a2 \<and> a2 \<noteq> NULL
         \<and> h' a2 = Some (Bytes (replicate (4 * nat (sint w * sint hh)) 0))
         \<and> (\<forall>p. p \<noteq> a1 \<and> p \<noteq> a2 \<and> p \<noteq> a3 \<longrightarrow> h' p = h p)))"
proof (intro conjI impI)
  assume "fst (calloc_bridge a1 h) = NULL"
  then show "fenster_bridge_create a1 a2 a3 h ttl w hh = Some (NULL, h)"
    by (simp add: fenster_bridge_create_def calloc_bridge_NULL)
next
  assume "fst (calloc_bridge a1 h) \<noteq> NULL
        \<and> fst (calloc a2 (snd (calloc_bridge a1 h)) (scast w * scast hh) 4) = NULL"
  then have 1: "calloc_bridge a1 h = (a1, h(a1 \<mapsto> Bridge zero_bridge))" "a1 \<noteq> NULL" "h a1 = None"
    and 2: "calloc a2 (h(a1 \<mapsto> Bridge zero_bridge)) (scast w * scast hh) 4
              = (NULL, h(a1 \<mapsto> Bridge zero_bridge))"
    using calloc_bridge_ok [of a1 h] calloc_NULL by auto
  show "fenster_bridge_create a1 a2 a3 h ttl w hh = Some (NULL, h)"
    using 1 2 by (simp add: fenster_bridge_create_def free_fresh)
next
  assume "fst (calloc_bridge a1 h) \<noteq> NULL
        \<and> fst (calloc a2 (snd (calloc_bridge a1 h)) (scast w * scast hh) 4) \<noteq> NULL"
  then have 1: "calloc_bridge a1 h = (a1, h(a1 \<mapsto> Bridge zero_bridge))" "a1 \<noteq> NULL" "h a1 = None"
    and ok: "fst (calloc a2 (h(a1 \<mapsto> Bridge zero_bridge)) (scast w * scast hh) 4) \<noteq> NULL"
    using calloc_bridge_ok [of a1 h] by auto
  let ?n = "unat (scast w * scast hh :: size_t) * unat (4 :: size_t)"
  let ?h1 = "h(a1 \<mapsto> Bridge zero_bridge)"
  let ?h2 = "?h1(a2 \<mapsto> Bytes (replicate ?n 0))"
  have 2: "calloc a2 ?h1 (scast w * scast hh) 4 = (a2, ?h2)" "a2 \<noteq> NULL" "?h1 a2 = None"
    "?n < 2 ^ 64"
    using calloc_ok [OF ok] by auto
  have n: "?n = 4 * nat (sint w * sint hh)"
    using byte_count 2(4) by blast
  have a12: "a1 \<noteq> a2"
    using 2(3) by auto
  have g: "get_bridge (snd (strdup a3 ?h2 ttl)) a1 = Some zero_bridge"
    using 1(2) a12 by (auto simp: strdup_def get_bridge_def)
  show "\<exists>h' b. fenster_bridge_create a1 a2 a3 h ttl w hh = Some (a1, h')
         \<and> a1 \<noteq> NULL \<and> get_bridge h' a1 = Some b
         \<and> prev_width b = w \<and> prev_height b = hh \<and> prev_scale b = one_f \<and> resized b = 0
         \<and> width (f b) = w \<and> height (f b) = hh
         \<and> title (f b) = title_copy b
         \<and> (title_copy b = NULL \<or> title_copy b = a3 \<and> h' a3 = Some (CString ttl))
         \<and> f_buf (f b) = buf b \<and> buf b = a2 \<and> a2 \<noteq> NULL
         \<and> h' a2 = Some (Bytes (replicate (4 * nat (sint w * sint hh)) 0))
         \<and> (\<forall>p. p \<noteq> a1 \<and> p \<noteq> a2 \<and> p \<noteq> a3 \<longrightarrow> h' p = h p)"
    using strdup_cases [of a3 ?h2 ttl]
  proof
    assume s: "strdup a3 ?h2 ttl = (NULL, ?h2)"
    then show ?thesis
      using 1 2 a12 n g
      by (simp add: fenster_bridge_create_def put_bridge_def get_bridge_def)
  next
    assume s: "a3 \<noteq> NULL \<and> ?h2 a3 = None \<and> strdup a3 ?h2 ttl = (a3, ?h2(a3 \<mapsto> CString ttl))"
    then have "a3 \<noteq> a1" "a3 \<noteq> a2"
      by (auto split: if_splits)
    then show ?thesis
      using s 1 2 a12 n g
      by (simp add: fenster_bridge_create_def put_bridge_def get_bridge_def)
  qed
qed

theorem create_result_witness:
  "fenster_bridge_create 0 2 3 Map.empty ''demo'' 2 2 = Some (NULL, Map.empty)
   \<and> fenster_bridge_create 1 0 3 Map.empty ''demo'' 2 2 = Some (NULL, Map.empty)
   \<and> (\<exists>h' b. fenster_bridge_create 1 2 3 Map.empty ''demo'' 2 2 = Some (1, h')
         \<and> get_bridge h' 1 = Some b
         \<and> prev_width b = 2 \<and> prev_height b = 2 \<and> prev_scale b = one_f \<and> resized b = 0
         \<and> width (f b) = 2 \<and> height (f b) = 2 \<and> title (f b) = 3 \<and> title_copy b = 3
         \<and> h' 3 = Some (CString ''demo'') \<and> f_buf (f b) = 2 \<and> buf b = 2
         \<and> h' 2 = Some (Bytes (replicate 16 0)))"
proof (intro conjI)
  show "fenster_bridge_create 0 2 3 Map.empty ''demo'' 2 2 = Some (NULL, Map.empty)"
    using create_result [of 0 Map.empty 2 3 "''demo''" 2 2]
    by (simp add: calloc_bridge_def)
  show "fenster_bridge_create 1 0 3 Map.empty ''demo'' 2 2 = Some (NULL, Map.empty)"
    using create_result [of 1 Map.empty 0 3 "''demo''" 2 2]
    by (simp add: calloc_bridge_def calloc_def)
  have "fenster_bridge_create 1 2 3 Map.empty ''demo'' 2 2 = Some (1, demo_heap)"
    by (rule demo_create)
  then show "\<exists>h' b. fenster_bridge_create 1 2 3 Map.empty ''demo'' 2 2 = Some (1, h')
         \<and> get_bridge h' 1 = Some b
         \<and> prev_width b = 2 \<and> prev_height b = 2 \<and> prev_scale b = one_f \<and> resized b = 0
         \<and> width (f b) = 2 \<and> height (f b) = 2 \<and> title (f b) = 3 \<and> title_copy b = 3
         \<and> h' 3 = Some (CString ''demo'') \<and> f_buf (f b) = 2 \<and> buf b = 2
         \<and> h' 2 = Some (Bytes (replicate 16 0))"
    using create_result [of 1 Map.empty 2 3 "''demo''" 2 2]
    by (auto simp: calloc_bridge_def calloc_def get_bridge_def demo_heap_def demo_bridge_def)
qed

subsection \<open>The two reallocations\<close>

lemma open_realloc_same:
  "phys_width (f b) = prev_width b \<Longrightarrow> phys_height (f b) = prev_height b \<Longrightarrow>
     open_realloc a h b = Some (b, h)"
  by (simp add: open_realloc_def)

lemma open_realloc_fail:
  "fst (calloc a h (scast (phys_width (f b)) * scast (phys_height (f b))) 4) = NULL \<Longrightarrow>
     open_realloc a h b = Some (b, h)"
  by (simp add: open_realloc_def calloc_NULL)

lemma open_realloc_ok:
  assumes "phys_width (f b) \<noteq> prev_width b \<or> phys_height (f b) \<noteq> prev_height b"
    and "fst (calloc a h (scast (phys_width (f b)) * scast (phys_height (f b))) 4) \<noteq> NULL"
    and "buf b \<noteq> NULL" and "h (buf b) \<noteq> None"
  shows "open_realloc a h b =
      Some (b\<lparr>buf := a, f := (f b)\<lparr>f_buf := a\<rparr>, prev_width := phys_width (f b),
               prev_height := phys_height (f b)\<rparr>,
            h(a \<mapsto> Bytes (replicate (4 * nat (sint (phys_width (f b)) * sint (phys_height (f b)))) 0),
              buf b := None))
    \<and> a \<noteq> NULL \<and> h a = None"
proof -
  let ?n = "unat (scast (phys_width (f b)) * scast (phys_height (f b)) :: size_t) * unat (4 :: size_t)"
  have c: "calloc a h (scast (phys_width (f b)) * scast (phys_height (f b))) 4
           = (a, h(a \<mapsto> Bytes (replicate ?n 0)))" "a \<noteq> NULL" "h a = None" "?n < 2 ^ 64"
    using calloc_ok [OF assms(2)] by auto
  have n: "?n = 4 * nat (sint (phys_width (f b)) * sint (phys_height (f b)))"
    using byte_count c(4) by blast
  have "a \<noteq> buf b"
    using c(3) assms(4) by auto
  then have "free (h(a \<mapsto> Bytes (replicate ?n 0))) (buf b)
      = Some (h(a \<mapsto> Bytes (replicate ?n 0), buf b := None))"
    using assms(3,4) by (auto simp: free_def)
  then show ?thesis
    using assms(1) c n by (simp add: open_realloc_def mult.commute)
qed

lemma recreate_img_eq:
  "recreate_img plat xok h fs new_buf newW newH =
     Some (if plat = X11 then fs\<lparr>img := XCreateImage xok new_buf newW newH\<rparr> else fs, h)"
  by (simp add: recreate_img_def XDestroyImage_def free_def split: option.splits)

lemma loop_realloc_same:
  "phys_width (f b) = prev_width b \<Longrightarrow> phys_height (f b) = prev_height b \<Longrightarrow>
     loop_realloc plat xok a h b = Some (b, h)"
  by (simp add: loop_realloc_def)

lemma loop_realloc_fail:
  "fst (calloc a h (scast (phys_width (f b)) * scast (phys_height (f b))) 4) = NULL \<Longrightarrow>
     loop_realloc plat xok a h b = Some (b, h)"
  by (simp add: loop_realloc_def calloc_NULL Let_def)

lemma loop_realloc_ok:
  assumes "phys_width (f b) \<noteq> prev_width b \<or> phys_height (f b) \<noteq> prev_height b"
    and "fst (calloc a h (scast (phys_width (f b)) * scast (phys_height (f b))) 4) \<noteq> NULL"
    and "buf b \<noteq> NULL" and "h (buf b) \<noteq> None"
  shows "loop_realloc plat xok a h b =
      Some (b\<lparr>buf := a,
               f := (if plat = X11
                     then (f b)\<lparr>f_buf := a,
                            img := XCreateImage xok a (phys_width (f b)) (phys_height (f b))\<rparr>
                     else (f b)\<lparr>f_buf := a\<rparr>),
               resized := 1, prev_width := phys_width (f b),
               prev_height := phys_height (f b), prev_scale := scale (f b)\<rparr>,
            h(a \<mapsto> Bytes (replicate (4 * nat (sint (phys_width (f b)) * sint (phys_height (f b)))) 0),
              buf b := None))
    \<and> a \<noteq> NULL \<and> h a = None"
proof -
  let ?n = "unat (scast (phys_width (f b)) * scast (phys_height (f b)) :: size_t) * unat (4 :: size_t)"
  have c: "calloc a h (scast (phys_width (f b)) * scast (phys_height (f b))) 4
           = (a, h(a \<mapsto> Bytes (replicate ?n 0)))" "a \<noteq> NULL" "h a = None" "?n < 2 ^ 64"
    using calloc_ok [OF assms(2)] by auto
  have n: "?n = 4 * nat (sint (phys_width (f b)) * sint (phys_height (f b)))"
    using byte_count c(4) by blast
  have "a \<noteq> buf b"
    using c(3) assms(4) by auto
  then have "free (h(a \<mapsto> Bytes (replicate ?n 0))) (buf b)
      = Some (h(a \<mapsto> Bytes (replicate ?n 0), buf b := None))"
    using assms(3,4) by (auto simp: free_def)
  then show ?thesis
    using assms(1) c n by (simp add: loop_realloc_def recreate_img_eq Let_def mult.commute)
qed

lemma get_bridge_after_realloc:
  assumes "get_bridge h fb = Some b0" and "h p = Some (Bytes bs)" and "h a = None"
  shows "get_bridge (h(a \<mapsto> x, p := None)) fb = Some b0"
  using assms by (auto simp: get_bridge_def split: if_splits)

lemma open_eq:
  assumes "get_bridge h fb = Some b" and "buf b \<noteq> NULL" and "h (buf b) = Some (Bytes bs)"
    and "lib (f b) = (r, f1)"
  shows "fenster_bridge_open lib a h fb =
     Some (r,
       if r \<noteq> 0 then h(fb \<mapsto> Bridge (b\<lparr>f := f1\<rparr>))
       else if (phys_width f1 \<noteq> prev_width b \<or> phys_height f1 \<noteq> prev_height b)
               \<and> fst (calloc a h (scast (phys_width f1) * scast (phys_height f1)) 4) \<noteq> NULL
       then h(a \<mapsto> Bytes (replicate (4 * nat (sint (phys_width f1) * sint (phys_height f1))) 0),
              buf b := None,
              fb \<mapsto> Bridge (b\<lparr>f := f1\<lparr>f_buf := a\<rparr>, buf := a,
                              prev_width := phys_width f1, prev_height := phys_height f1,
                              prev_scale := scale f1\<rparr>))
       else h(fb \<mapsto> Bridge (b\<lparr>f := f1, prev_scale := scale f1\<rparr>)))"
proof (cases "r \<noteq> 0")
  case True
  then show ?thesis
    using assms(1,4) by (simp add: fenster_bridge_open_def put_bridge_Some)
next
  case r0: False
  show ?thesis
  proof (cases "(phys_width f1 \<noteq> prev_width b \<or> phys_height f1 \<noteq> prev_height b)
               \<and> fst (calloc a h (scast (phys_width f1) * scast (phys_height f1)) 4) \<noteq> NULL")
    case True
    let ?h2 = "h(a \<mapsto> Bytes (replicate (4 * nat (sint (phys_width f1) * sint (phys_height f1))) 0),
                 buf b := None)"
    have r: "open_realloc a h (b\<lparr>f := f1\<rparr>)
        = Some (b\<lparr>f := f1\<lparr>f_buf := a\<rparr>, buf := a, prev_width := phys_width f1,
                   prev_height := phys_height f1\<rparr>, ?h2)" "h a = None"
      using open_realloc_ok [of "b\<lparr>f := f1\<rparr>" a h] True assms(2,3) by auto
    have g: "get_bridge ?h2 fb = Some b"
      using get_bridge_after_realloc [OF assms(1) assms(3) r(2)] .
    have "fenster_bridge_open lib a h fb
        = Some (r, ?h2(fb \<mapsto> Bridge (b\<lparr>f := f1\<lparr>f_buf := a\<rparr>, buf := a,
                              prev_width := phys_width f1, prev_height := phys_height f1,
                              prev_scale := scale f1\<rparr>)))"
      using assms(1,4) r0 r(1) g by (simp add: fenster_bridge_open_def put_bridge_Some)
    then show ?thesis
      by (simp only: if_not_P [OF r0] if_P [OF True])
  next
    case False
    then have "open_realloc a h (b\<lparr>f := f1\<rparr>) = Some (b\<lparr>f := f1\<rparr>, h)"
      using open_realloc_same [of "b\<lparr>f := f1\<rparr>" a h] open_realloc_fail [of a h "b\<lparr>f := f1\<rparr>"]
      by auto
    then have "fenster_bridge_open lib a h fb
        = Some (r, h(fb \<mapsto> Bridge (b\<lparr>f := f1, prev_scale := scale f1\<rparr>)))"
      using assms(1,4) r0 by (simp add: fenster_bridge_open_def put_bridge_Some)
    then show ?thesis
      by (simp only: if_not_P [OF r0] if_not_P [OF False])
  qed
qed

lemma loop_eq:
  assumes "get_bridge h fb = Some b" and "buf b \<noteq> NULL" and "h (buf b) = Some (Bytes bs)"
    and "lib (f b) = (r, f1)"
  shows "fenster_bridge_loop plat lib xok a h fb =
     Some (r,
       if (phys_width f1 \<noteq> prev_width b \<or> phys_height f1 \<noteq> prev_height b)
               \<and> fst (calloc a h (scast (phys_width f1) * scast (phys_height f1)) 4) \<noteq> NULL
       then h(a \<mapsto> Bytes (replicate (4 * nat (sint (phys_width f1) * sint (phys_height f1))) 0),
              buf b := None,
              fb \<mapsto> Bridge (b\<lparr>f := (if plat = X11
                                    then f1\<lparr>f_buf := a,
                                           img := XCreateImage xok a (phys_width f1) (phys_height f1)\<rparr>
                                    else f1\<lparr>f_buf := a\<rparr>),
                              buf := a, resized := 1,
                              prev_width := phys_width f1, prev_height := phys_height f1,
                              prev_scale := scale f1\<rparr>))
       else h(fb \<mapsto> Bridge (b\<lparr>f := f1\<rparr>)))"
proof (cases "(phys_width f1 \<noteq> prev_width b \<or> phys_height f1 \<noteq> prev_height b)
               \<and> fst (calloc a h (scast (phys_width f1) * scast (phys_height f1)) 4) \<noteq> NULL")
  case True
  let ?h2 = "h(a \<mapsto> Bytes (replicate (4 * nat (sint (phys_width f1) * sint (phys_height f1))) 0),
               buf b := None)"
  let ?b2 = "b\<lparr>f := (if plat = X11
                      then f1\<lparr>f_buf := a,
                             img := XCreateImage xok a (phys_width f1) (phys_height f1)\<rparr>
                      else f1\<lparr>f_buf := a\<rparr>),
                buf := a, resized := 1,
                prev_width := phys_width f1, prev_height := phys_height f1,
                prev_scale := scale f1\<rparr>"
  have r: "loop_realloc plat xok a h (b\<lparr>f := f1\<rparr>) = Some (?b2, ?h2)" "h a = None"
    using loop_realloc_ok [of "b\<lparr>f := f1\<rparr>" a h plat xok] True assms(2,3) by auto
  have g: "get_bridge ?h2 fb = Some b"
    using get_bridge_after_realloc [OF assms(1) assms(3) r(2)] .
  have "fenster_bridge_loop plat lib xok a h fb = Some (r, ?h2(fb \<mapsto> Bridge ?b2))"
    using assms(1,4) r(1) g by (simp add: fenster_bridge_loop_def put_bridge_Some)
  then show ?thesis
    by (simp only: if_P [OF True])
next
  case False
  then have "loop_realloc plat xok a h (b\<lparr>f := f1\<rparr>) = Some (b\<lparr>f := f1\<rparr>, h)"
    using loop_realloc_same [of "b\<lparr>f := f1\<rparr>" plat xok a h]
      loop_realloc_fail [of a h "b\<lparr>f := f1\<rparr>" plat xok]
    by auto
  then have "fenster_bridge_loop plat lib xok a h fb = Some (r, h(fb \<mapsto> Bridge (b\<lparr>f := f1\<rparr>)))"
    using assms(1,4) by (simp add: fenster_bridge_loop_def put_bridge_Some)
  then show ?thesis
    by (simp only: if_not_P [OF False])
qed

subsection \<open>Opening the window\<close>

text \<open>
  C4.  For a handle whose buffer pointer is a live block, when the library's open
  routine returns 0, \<open>fenster_bridge_open\<close> returns 0.  If the physical dimensions the
  library reports differ from the cached ones and \<open>calloc\<close> succeeds, the store gets a new
  zeroed block of \<open>4 * phys_width * phys_height\<close> bytes, loses the old buffer, and the
  handle has both buffer pointers set to the new block and the cached dimensions set to
  the physical ones.  If the dimensions agree, or \<open>calloc\<close> fails, the buffer, both
  pointers and the cached dimensions are as before.  The cached scale is set to the
  library's scale in each case.
\<close>

theorem open_success:
  assumes "get_bridge h fb = Some b" and "buf b \<noteq> NULL" and "h (buf b) = Some (Bytes bs)"
    and "fenster_open (f b) = (0, f1)"
  shows
    "(phys_width f1 = prev_width b \<and> phys_height f1 = prev_height b \<longrightarrow>
        fenster_bridge_open fenster_open a h fb
          = Some (0, h(fb \<mapsto> Bridge (b\<lparr>f := f1, prev_scale := scale f1\<rparr>))))
     \<and> ((phys_width f1 \<noteq> prev_width b \<or> phys_height f1 \<noteq> prev_height b)
          \<and> fst (calloc a h (scast (phys_width f1) * scast (phys_height f1)) 4) = NULL \<longrightarrow>
        fenster_bridge_open fenster_open a h fb
          = Some (0, h(fb \<mapsto> Bridge (b\<lparr>f := f1, prev_scale := scale f1\<rparr>))))
     \<and> ((phys_width f1 \<noteq> prev_width b \<or> phys_height f1 \<noteq> prev_height b)
          \<and> fst (calloc a h (scast (phys_width f1) * scast (phys_height f1)) 4) \<noteq> NULL \<longrightarrow>
        fenster_bridge_open fenster_open a h fb
          = Some (0, h(a \<mapsto> Bytes (replicate (4 * nat (sint (phys_width f1) * sint (phys_height f1))) 0),
                       buf b := None,
                       fb \<mapsto> Bridge (b\<lparr>f := f1\<lparr>f_buf := a\<rparr>, buf := a,
                                       prev_width := phys_width f1, prev_height := phys_height f1,
                                       prev_scale := scale f1\<rparr>)))
        \<and> a \<noteq> NULL \<and> h a = None \<and> a \<noteq> buf b \<and> a \<noteq> fb \<and> buf b \<noteq> fb)"
    (is "?same \<and> ?fail \<and> ?ok")
proof -
  have same: ?same
  proof
    assume "phys_width f1 = prev_width b \<and> phys_height f1 = prev_height b"
    then have "open_realloc a h (b\<lparr>f := f1\<rparr>) = Some (b\<lparr>f := f1\<rparr>, h)"
      by (simp add: open_realloc_same)
    then show "fenster_bridge_open fenster_open a h fb
          = Some (0, h(fb \<mapsto> Bridge (b\<lparr>f := f1, prev_scale := scale f1\<rparr>)))"
      using assms(1,4) by (simp add: fenster_bridge_open_def put_bridge_Some)
  qed
  have fail: ?fail
  proof
    assume "(phys_width f1 \<noteq> prev_width b \<or> phys_height f1 \<noteq> prev_height b)
          \<and> fst (calloc a h (scast (phys_width f1) * scast (phys_height f1)) 4) = NULL"
    then have "open_realloc a h (b\<lparr>f := f1\<rparr>) = Some (b\<lparr>f := f1\<rparr>, h)"
      by (simp add: open_realloc_fail)
    then show "fenster_bridge_open fenster_open a h fb
          = Some (0, h(fb \<mapsto> Bridge (b\<lparr>f := f1, prev_scale := scale f1\<rparr>)))"
      using assms(1,4) by (simp add: fenster_bridge_open_def put_bridge_Some)
  qed
  have ok: ?ok
  proof
    assume d: "(phys_width f1 \<noteq> prev_width b \<or> phys_height f1 \<noteq> prev_height b)
          \<and> fst (calloc a h (scast (phys_width f1) * scast (phys_height f1)) 4) \<noteq> NULL"
    let ?h2 = "h(a \<mapsto> Bytes (replicate (4 * nat (sint (phys_width f1) * sint (phys_height f1))) 0),
                 buf b := None)"
    have r: "open_realloc a h (b\<lparr>f := f1\<rparr>)
        = Some (b\<lparr>f := f1\<lparr>f_buf := a\<rparr>, buf := a, prev_width := phys_width f1,
                   prev_height := phys_height f1\<rparr>, ?h2)" "a \<noteq> NULL" "h a = None"
      using open_realloc_ok [of "b\<lparr>f := f1\<rparr>" a h] d assms(2,3) by auto
    have g: "get_bridge ?h2 fb = Some b"
      using get_bridge_after_realloc [OF assms(1) assms(3) r(3)] .
    have ne: "a \<noteq> buf b" "a \<noteq> fb" "buf b \<noteq> fb"
      using r(3) assms(1,3) by (auto simp: get_bridge_Some)
    show "fenster_bridge_open fenster_open a h fb
          = Some (0, h(a \<mapsto> Bytes (replicate (4 * nat (sint (phys_width f1) * sint (phys_height f1))) 0),
                       buf b := None,
                       fb \<mapsto> Bridge (b\<lparr>f := f1\<lparr>f_buf := a\<rparr>, buf := a,
                                       prev_width := phys_width f1, prev_height := phys_height f1,
                                       prev_scale := scale f1\<rparr>)))
        \<and> a \<noteq> NULL \<and> h a = None \<and> a \<noteq> buf b \<and> a \<noteq> fb \<and> buf b \<noteq> fb"
      using assms(1,4) r g ne by (simp add: fenster_bridge_open_def put_bridge_Some)
  qed
  show ?thesis
    by (rule conjI [OF same conjI [OF fail ok]])
qed

lemma demo_free_addr: "demo_heap 4 = None" "demo_heap 5 = None"
  by (simp_all add: demo_heap_def)

lemma demo_buf: "demo_heap (buf demo_bridge) = Some (Bytes (replicate 16 0))" "buf demo_bridge \<noteq> NULL"
  by (simp_all add: demo_heap_def demo_bridge_def)

theorem open_success_witness:
  "fenster_bridge_open lib_1x 4 demo_heap 1
     = Some (0, demo_heap(1 \<mapsto> Bridge (demo_bridge\<lparr>f := snd (lib_1x (f demo_bridge)),
                                                   prev_scale := one_f\<rparr>)))
   \<and> fenster_bridge_open lib_2x NULL demo_heap 1
     = Some (0, demo_heap(1 \<mapsto> Bridge (demo_bridge\<lparr>f := snd (lib_2x (f demo_bridge)),
                                                   prev_scale := two_f\<rparr>)))
   \<and> fenster_bridge_open lib_2x 4 demo_heap 1
     = Some (0, demo_heap(4 \<mapsto> Bytes (replicate 64 0), 2 := None,
                  1 \<mapsto> Bridge (demo_bridge\<lparr>f := (snd (lib_2x (f demo_bridge)))\<lparr>f_buf := 4\<rparr>,
                                    buf := 4, prev_width := 4, prev_height := 4,
                                    prev_scale := two_f\<rparr>)))"
proof (intro conjI)
  have 1: "lib_1x (f demo_bridge) = (0, snd (lib_1x (f demo_bridge)))"
    and 2: "lib_2x (f demo_bridge) = (0, snd (lib_2x (f demo_bridge)))"
    by (simp_all add: lib_1x_def lib_2x_def)
  show "fenster_bridge_open lib_1x 4 demo_heap 1
     = Some (0, demo_heap(1 \<mapsto> Bridge (demo_bridge\<lparr>f := snd (lib_1x (f demo_bridge)),
                                                   prev_scale := one_f\<rparr>)))"
    using open_success [where fenster_open = lib_1x and a = 4, OF demo_get demo_buf(2) demo_buf(1) 1]
    by (simp add: lib_1x_def demo_bridge_def zero_fenster_def)
  show "fenster_bridge_open lib_2x NULL demo_heap 1
     = Some (0, demo_heap(1 \<mapsto> Bridge (demo_bridge\<lparr>f := snd (lib_2x (f demo_bridge)),
                                                   prev_scale := two_f\<rparr>)))"
    using open_success [where fenster_open = lib_2x and a = NULL, OF demo_get demo_buf(2) demo_buf(1) 2]
    by (simp add: lib_2x_def demo_bridge_def zero_fenster_def calloc_def)
  show "fenster_bridge_open lib_2x 4 demo_heap 1
     = Some (0, demo_heap(4 \<mapsto> Bytes (replicate 64 0), 2 := None,
                  1 \<mapsto> Bridge (demo_bridge\<lparr>f := (snd (lib_2x (f demo_bridge)))\<lparr>f_buf := 4\<rparr>,
                                    buf := 4, prev_width := 4, prev_height := 4,
                                    prev_scale := two_f\<rparr>)))"
    using open_success [where fenster_open = lib_2x and a = 4, OF demo_get demo_buf(2) demo_buf(1) 2]
    by (simp add: lib_2x_def demo_bridge_def zero_fenster_def calloc_def demo_free_addr)
qed

subsection \<open>Pumping the window\<close>

lemma demo_course:
  "fenster_bridge_open lib_1x 4 demo_heap 1 = Some (0, demo_heap_open)"
  "fenster_bridge_loop Apple lib_2x True NULL demo_heap_open 1 = Some (0, demo_heap_moved)"
  "fenster_bridge_loop Apple lib_idle True 4 demo_heap_moved 1 = Some (0, demo_heap_late)"
proof -
  have l1: "lib_1x (f demo_bridge) = (0, f demo_bridge_open)"
    by (simp add: lib_1x_def demo_bridge_open_def demo_bridge_def zero_fenster_def)
  have e1: "demo_heap(1 \<mapsto> Bridge (demo_bridge\<lparr>f := f demo_bridge_open,
                prev_scale := scale (f demo_bridge_open)\<rparr>)) = demo_heap_open"
    by (simp add: demo_heap_open_def demo_bridge_open_def demo_bridge_def)
  have d1: "phys_width (f demo_bridge_open) = prev_width demo_bridge"
    "phys_height (f demo_bridge_open) = prev_height demo_bridge"
    by (simp_all add: demo_bridge_open_def demo_bridge_def)
  show "fenster_bridge_open lib_1x 4 demo_heap 1 = Some (0, demo_heap_open)"
    using open_eq [where lib = lib_1x and a = 4, OF demo_get demo_buf(2) demo_buf(1) l1]
    by (simp del: One_nat_def add: d1 e1)
  have g1: "get_bridge demo_heap_open 1 = Some demo_bridge_open"
    and b1: "buf demo_bridge_open \<noteq> NULL"
      "demo_heap_open (buf demo_bridge_open) = Some (Bytes (replicate 16 0))"
    by (simp_all add: demo_heap_open_def demo_heap_def get_bridge_def demo_bridge_open_def
        demo_bridge_def)
  have l2: "lib_2x (f demo_bridge_open) = (0, f demo_bridge_moved)"
    by (simp add: lib_2x_def demo_bridge_moved_def demo_bridge_open_def demo_bridge_def
        zero_fenster_def)
  have e2: "demo_heap_open(1 \<mapsto> Bridge (demo_bridge_open\<lparr>f := f demo_bridge_moved\<rparr>))
      = demo_heap_moved"
    by (simp add: demo_heap_open_def demo_heap_moved_def demo_bridge_moved_def)
  have c2: "fst (calloc NULL demo_heap_open
      (scast (phys_width (f demo_bridge_moved)) * scast (phys_height (f demo_bridge_moved))) 4) = NULL"
    by (simp add: calloc_def)
  show "fenster_bridge_loop Apple lib_2x True NULL demo_heap_open 1 = Some (0, demo_heap_moved)"
    using loop_eq [where lib = lib_2x and a = NULL and plat = Apple and xok = True,
        OF g1 b1 l2]
    by (simp del: One_nat_def add: c2 e2)
  have g2: "get_bridge demo_heap_moved 1 = Some demo_bridge_moved"
    and b2: "buf demo_bridge_moved \<noteq> NULL"
      "demo_heap_moved (buf demo_bridge_moved) = Some (Bytes (replicate 16 0))"
    by (simp_all add: demo_heap_moved_def demo_heap_def get_bridge_def demo_bridge_moved_def
        demo_bridge_open_def demo_bridge_def)
  have l3: "lib_idle (f demo_bridge_moved) = (0, f demo_bridge_moved)"
    by (simp add: lib_idle_def)
  have d3: "phys_width (f demo_bridge_moved) = 4" "phys_height (f demo_bridge_moved) = 4"
    "prev_width demo_bridge_moved = 2" "prev_height demo_bridge_moved = 2"
    "buf demo_bridge_moved = 2" "scale (f demo_bridge_moved) = two_f"
    by (simp_all add: demo_bridge_moved_def demo_bridge_open_def demo_bridge_def)
  have c3: "fst (calloc 4 demo_heap_moved (scast (4 :: c_int) * scast (4 :: c_int)) 4) \<noteq> NULL"
    by (simp add: calloc_def demo_heap_moved_def demo_heap_def)
  have e3: "demo_heap_moved(4 \<mapsto> Bytes (replicate 64 0), 2 := None,
       1 \<mapsto> Bridge (demo_bridge_moved\<lparr>f := (f demo_bridge_moved)\<lparr>f_buf := 4\<rparr>, buf := 4,
          resized := 1, prev_width := 4, prev_height := 4, prev_scale := two_f\<rparr>))
      = demo_heap_late"
    by (auto simp: demo_heap_late_def demo_heap_moved_def demo_bridge_late_def fun_eq_iff)
  show "fenster_bridge_loop Apple lib_idle True 4 demo_heap_moved 1 = Some (0, demo_heap_late)"
    using loop_eq [where lib = lib_idle and a = 4 and plat = Apple and xok = True,
        OF g2 b2 l3] c3
    by (simp del: One_nat_def add: d3 e3)
qed

lemma demo_rescale:
  "fenster_bridge_loop Apple lib_rescale True 4 demo_heap_open 1
     = Some (0, demo_heap_open(1 \<mapsto> Bridge (demo_bridge_open\<lparr>f := (f demo_bridge_open)\<lparr>scale := two_f\<rparr>\<rparr>)))"
proof -
  have g: "get_bridge demo_heap_open 1 = Some demo_bridge_open"
    and b: "buf demo_bridge_open \<noteq> NULL"
      "demo_heap_open (buf demo_bridge_open) = Some (Bytes (replicate 16 0))"
    by (simp_all add: demo_heap_open_def demo_heap_def get_bridge_def demo_bridge_open_def
        demo_bridge_def)
  have l: "lib_rescale (f demo_bridge_open) = (0, (f demo_bridge_open)\<lparr>scale := two_f\<rparr>)"
    by (simp add: lib_rescale_def)
  have d: "phys_width (f demo_bridge_open) = prev_width demo_bridge_open"
    "phys_height (f demo_bridge_open) = prev_height demo_bridge_open"
    by (simp_all add: demo_bridge_open_def demo_bridge_def)
  show ?thesis
    using loop_eq [where lib = lib_rescale and a = 4 and plat = Apple and xok = True, OF g b l]
    by (simp del: One_nat_def add: d)
qed

lemma demo_cache:
  "get_bridge demo_heap_open 1 = Some demo_bridge_open"
  "prev_width demo_bridge_open = 2" "prev_height demo_bridge_open = 2"
  "prev_scale demo_bridge_open = one_f"
  "get_bridge demo_heap_moved 1 = Some demo_bridge_moved"
  "phys_width (f demo_bridge_moved) = 4" "phys_height (f demo_bridge_moved) = 4"
  "scale (f demo_bridge_moved) = two_f"
  "prev_width demo_bridge_moved = 2" "prev_height demo_bridge_moved = 2"
  "prev_scale demo_bridge_moved = one_f"
  "two_f \<noteq> one_f"
  by (simp_all add: get_bridge_def demo_heap_open_def demo_heap_moved_def demo_bridge_moved_def
      demo_bridge_open_def demo_bridge_def two_f_def one_f_def)

text \<open>
  C5, as claimed, fails.  A 2 by 2 window is created and opened on a display of scale 1,
  so that the cache holds 2 by 2 and the scale \<open>1.0f\<close>.  The pump then reports 4 by 4 at
  scale \<open>2.0f\<close> and \<open>calloc\<close> fails: \<open>fenster_bridge_loop\<close> returns with the cached
  dimensions still 2 by 2 and the cached scale still \<open>1.0f\<close>.  And when the pump changes
  the scale to \<open>2.0f\<close> and leaves the physical dimensions alone, the cached scale stays
  \<open>1.0f\<close> as well.
\<close>

theorem loop_cache_counterexample:
  "fenster_bridge_create 1 2 3 Map.empty ''demo'' 2 2 = Some (1, demo_heap)
   \<and> fenster_bridge_open lib_1x 4 demo_heap 1 = Some (0, demo_heap_open)
   \<and> get_bridge demo_heap_open 1 = Some demo_bridge_open
   \<and> prev_width demo_bridge_open = 2 \<and> prev_height demo_bridge_open = 2
   \<and> prev_scale demo_bridge_open = one_f
   \<and> fenster_bridge_loop Apple lib_2x True NULL demo_heap_open 1 = Some (0, demo_heap_moved)
   \<and> get_bridge demo_heap_moved 1 = Some demo_bridge_moved
   \<and> phys_width (f demo_bridge_moved) = 4 \<and> phys_height (f demo_bridge_moved) = 4
   \<and> scale (f demo_bridge_moved) = two_f
   \<and> prev_width demo_bridge_moved = 2 \<and> prev_height demo_bridge_moved = 2
   \<and> prev_scale demo_bridge_moved = one_f
   \<and> fenster_bridge_loop Apple lib_rescale True 4 demo_heap_open 1
       = Some (0, demo_heap_open(1 \<mapsto> Bridge (demo_bridge_open\<lparr>f := (f demo_bridge_open)\<lparr>scale := two_f\<rparr>\<rparr>)))
   \<and> two_f \<noteq> one_f"
  using demo_create demo_course(1,2) demo_rescale demo_cache by (intro conjI)

text \<open>
  C5, amended.  For a handle whose buffer pointer is a live block, \<open>fenster_bridge_loop\<close>
  returns the status of the library's pump routine.  If the physical dimensions after
  the pump differ from the cached ones, a zeroed block of
  \<open>4 * phys_width * phys_height\<close> bytes is requested; when \<open>calloc\<close> succeeds the new block
  replaces the old buffer, which is released, both buffer pointers are set to it (on
  X11 the image is rebound to it as well), the resize flag is set to 1 and the cached
  dimensions and scale are set to the physical dimensions and the library's scale.
  When \<open>calloc\<close> fails, or the dimensions agree, the handle changes in the embedded
  window state only: the old buffer is retained, and the resize flag, the cached
  dimensions and the cached scale are as before.
\<close>

theorem loop_result:
  assumes "get_bridge h fb = Some b" and "buf b \<noteq> NULL" and "h (buf b) = Some (Bytes bs)"
    and "fenster_loop (f b) = (r, f1)"
  shows
    "(phys_width f1 = prev_width b \<and> phys_height f1 = prev_height b \<longrightarrow>
        fenster_bridge_loop plat fenster_loop xok a h fb
          = Some (r, h(fb \<mapsto> Bridge (b\<lparr>f := f1\<rparr>))))
     \<and> ((phys_width f1 \<noteq> prev_width b \<or> phys_height f1 \<noteq> prev_height b)
          \<and> fst (calloc a h (scast (phys_width f1) * scast (phys_height f1)) 4) = NULL \<longrightarrow>
        fenster_bridge_loop plat fenster_loop xok a h fb
          = Some (r, h(fb \<mapsto> Bridge (b\<lparr>f := f1\<rparr>))))
     \<and> ((phys_width f1 \<noteq> prev_width b \<or> phys_height f1 \<noteq> prev_height b)
          \<and> fst (calloc a h (scast (phys_width f1) * scast (phys_height f1)) 4) \<noteq> NULL \<longrightarrow>
        fenster_bridge_loop plat fenster_loop xok a h fb
          = Some (r, h(a \<mapsto> Bytes (replicate (4 * nat (sint (phys_width f1) * sint (phys_height f1))) 0),
                       buf b := None,
                       fb \<mapsto> Bridge (b\<lparr>f := (if plat = X11
                                             then f1\<lparr>f_buf := a,
                                                    img := XCreateImage xok a (phys_width f1) (phys_height f1)\<rparr>
                                             else f1\<lparr>f_buf := a\<rparr>),
                                       buf := a, resized := 1,
                                       prev_width := phys_width f1, prev_height := phys_height f1,
                                       prev_scale := scale f1\<rparr>)))
        \<and> a \<noteq> NULL \<and> h a = None \<and> a \<noteq> buf b \<and> a \<noteq> fb \<and> buf b \<noteq> fb)"
    (is "?same \<and> ?fail \<and> ?ok")
proof -
  have same: ?same
  proof
    assume "phys_width f1 = prev_width b \<and> phys_height f1 = prev_height b"
    then have "loop_realloc plat xok a h (b\<lparr>f := f1\<rparr>) = Some (b\<lparr>f := f1\<rparr>, h)"
      by (simp add: loop_realloc_same)
    then show "fenster_bridge_loop plat fenster_loop xok a h fb
          = Some (r, h(fb \<mapsto> Bridge (b\<lparr>f := f1\<rparr>)))"
      using assms(1,4) by (simp add: fenster_bridge_loop_def put_bridge_Some)
  qed
  have fail: ?fail
  proof
    assume "(phys_width f1 \<noteq> prev_width b \<or> phys_height f1 \<noteq> prev_height b)
          \<and> fst (calloc a h (scast (phys_width f1) * scast (phys_height f1)) 4) = NULL"
    then have "loop_realloc plat xok a h (b\<lparr>f := f1\<rparr>) = Some (b\<lparr>f := f1\<rparr>, h)"
      by (simp add: loop_realloc_fail)
    then show "fenster_bridge_loop plat fenster_loop xok a h fb
          = Some (r, h(fb \<mapsto> Bridge (b\<lparr>f := f1\<rparr>)))"
      using assms(1,4) by (simp add: fenster_bridge_loop_def put_bridge_Some)
  qed
  have ok: ?ok
  proof
    assume d: "(phys_width f1 \<noteq> prev_width b \<or> phys_height f1 \<noteq> prev_height b)
          \<and> fst (calloc a h (scast (phys_width f1) * scast (phys_height f1)) 4) \<noteq> NULL"
    let ?h2 = "h(a \<mapsto> Bytes (replicate (4 * nat (sint (phys_width f1) * sint (phys_height f1))) 0),
                 buf b := None)"
    let ?b2 = "b\<lparr>f := (if plat = X11
                        then f1\<lparr>f_buf := a,
                               img := XCreateImage xok a (phys_width f1) (phys_height f1)\<rparr>
                        else f1\<lparr>f_buf := a\<rparr>),
                  buf := a, resized := 1,
                  prev_width := phys_width f1, prev_height := phys_height f1,
                  prev_scale := scale f1\<rparr>"
    have r: "loop_realloc plat xok a h (b\<lparr>f := f1\<rparr>) = Some (?b2, ?h2)" "a \<noteq> NULL" "h a = None"
      using loop_realloc_ok [of "b\<lparr>f := f1\<rparr>" a h plat xok] d assms(2,3) by auto
    have g: "get_bridge ?h2 fb = Some b"
      using get_bridge_after_realloc [OF assms(1) assms(3) r(3)] .
    have ne: "a \<noteq> buf b" "a \<noteq> fb" "buf b \<noteq> fb"
      using r(3) assms(1,3) by (auto simp: get_bridge_Some)
    have "fenster_bridge_loop plat fenster_loop xok a h fb = Some (r, ?h2(fb \<mapsto> Bridge ?b2))"
      using assms(1,4) r(1) g by (simp add: fenster_bridge_loop_def put_bridge_Some)
    then show "fenster_bridge_loop plat fenster_loop xok a h fb
          = Some (r, h(a \<mapsto> Bytes (replicate (4 * nat (sint (phys_width f1) * sint (phys_height f1))) 0),
                       buf b := None,
                       fb \<mapsto> Bridge (b\<lparr>f := (if plat = X11
                                             then f1\<lparr>f_buf := a,
                                                    img := XCreateImage xok a (phys_width f1) (phys_height f1)\<rparr>
                                             else f1\<lparr>f_buf := a\<rparr>),
                                       buf := a, resized := 1,
                                       prev_width := phys_width f1, prev_height := phys_height f1,
                                       prev_scale := scale f1\<rparr>)))
        \<and> a \<noteq> NULL \<and> h a = None \<and> a \<noteq> buf b \<and> a \<noteq> fb \<and> buf b \<noteq> fb"
      using r(2,3) ne by simp
  qed
  show ?thesis
    by (rule conjI [OF same conjI [OF fail ok]])
qed

theorem loop_result_witness:
  "fenster_bridge_loop X11 lib_1x True 4 demo_heap 1
     = Some (0, demo_heap(1 \<mapsto> Bridge (demo_bridge\<lparr>f := snd (lib_1x (f demo_bridge))\<rparr>)))
   \<and> fenster_bridge_loop X11 lib_2x True NULL demo_heap 1
     = Some (0, demo_heap(1 \<mapsto> Bridge (demo_bridge\<lparr>f := snd (lib_2x (f demo_bridge))\<rparr>)))
   \<and> fenster_bridge_loop X11 lib_2x True 4 demo_heap 1
     = Some (0, demo_heap(4 \<mapsto> Bytes (replicate 64 0), 2 := None,
                  1 \<mapsto> Bridge (demo_bridge\<lparr>
                         f := (snd (lib_2x (f demo_bridge)))\<lparr>f_buf := 4,
                                 img := Some \<lparr>data = 4, xwidth = 4, xheight = 4\<rparr>\<rparr>,
                         buf := 4, resized := 1, prev_width := 4, prev_height := 4,
                         prev_scale := two_f\<rparr>)))"
proof (intro conjI)
  have 1: "lib_1x (f demo_bridge) = (0, snd (lib_1x (f demo_bridge)))"
    and 2: "lib_2x (f demo_bridge) = (0, snd (lib_2x (f demo_bridge)))"
    by (simp_all add: lib_1x_def lib_2x_def)
  show "fenster_bridge_loop X11 lib_1x True 4 demo_heap 1
     = Some (0, demo_heap(1 \<mapsto> Bridge (demo_bridge\<lparr>f := snd (lib_1x (f demo_bridge))\<rparr>)))"
    using loop_result [where fenster_loop = lib_1x and a = 4 and plat = X11 and xok = True,
        OF demo_get demo_buf(2) demo_buf(1) 1]
    by (simp add: lib_1x_def demo_bridge_def zero_fenster_def)
  show "fenster_bridge_loop X11 lib_2x True NULL demo_heap 1
     = Some (0, demo_heap(1 \<mapsto> Bridge (demo_bridge\<lparr>f := snd (lib_2x (f demo_bridge))\<rparr>)))"
    using loop_result [where fenster_loop = lib_2x and a = NULL and plat = X11 and xok = True,
        OF demo_get demo_buf(2) demo_buf(1) 2]
    by (simp add: lib_2x_def demo_bridge_def zero_fenster_def calloc_def)
  show "fenster_bridge_loop X11 lib_2x True 4 demo_heap 1
     = Some (0, demo_heap(4 \<mapsto> Bytes (replicate 64 0), 2 := None,
                  1 \<mapsto> Bridge (demo_bridge\<lparr>
                         f := (snd (lib_2x (f demo_bridge)))\<lparr>f_buf := 4,
                                 img := Some \<lparr>data = 4, xwidth = 4, xheight = 4\<rparr>\<rparr>,
                         buf := 4, resized := 1, prev_width := 4, prev_height := 4,
                         prev_scale := two_f\<rparr>)))"
    using loop_result [where fenster_loop = lib_2x and a = 4 and plat = X11 and xok = True,
        OF demo_get demo_buf(2) demo_buf(1) 2]
    by (simp add: lib_2x_def demo_bridge_def zero_fenster_def calloc_def demo_free_addr
        XCreateImage_def)
qed

subsection \<open>Copying into the buffer\<close>

lemma unat_scast_nonneg:
  fixes n :: c_int
  assumes "0 \<le> sint n"
  shows "unat (scast n :: size_t) = nat (sint n)"
proof -
  have "sint n < 2 ^ 64"
    using sint_bounds32 [of n] by simp
  then have "sint n mod 2 ^ 64 = sint n"
    using assms by (intro mod_pos_pos_trivial) auto
  then have "uint (scast n :: size_t) = sint n"
    by (simp only: uint_scast_64)
  then show ?thesis
    by (metis nat_uint_eq)
qed

text \<open>
  C9.  For a handle whose buffer is a live block \<open>bs\<close>, a source region \<open>src\<close> and a byte
  length \<open>n\<close> with \<open>0 \<le> n \<le> length bs\<close> (the source region holds at least \<open>n\<close> bytes),
  \<open>fenster_bridge_copy_buf\<close> replaces the first \<open>n\<close> bytes of the buffer by the first \<open>n\<close>
  bytes of the source and leaves the other bytes, the length of the buffer and every
  other object of the store as they are.  With \<open>n = length bs\<close> the buffer afterwards is
  the first \<open>n\<close> bytes of the source.
\<close>

theorem copy_buf_prefix:
  assumes "get_bridge h fb = Some b" and "h (buf b) = Some (Bytes bs)"
    and "0 \<le> sint n" and "nat (sint n) \<le> length bs" and "nat (sint n) \<le> length src"
  shows "\<exists>bs'. fenster_bridge_copy_buf h fb src n = Some (h(buf b \<mapsto> Bytes bs'))
       \<and> length bs' = length bs
       \<and> take (nat (sint n)) bs' = take (nat (sint n)) src
       \<and> drop (nat (sint n)) bs' = drop (nat (sint n)) bs
       \<and> (nat (sint n) = length bs \<longrightarrow> bs' = take (length bs) src)"
proof -
  let ?k = "nat (sint n)"
  let ?bs = "take ?k src @ drop ?k bs"
  have k: "unat (scast n :: size_t) = ?k"
    using assms(3) by (rule unat_scast_nonneg)
  have "fenster_bridge_copy_buf h fb src n = Some (h(buf b \<mapsto> Bytes ?bs))"
    using assms by (simp add: fenster_bridge_copy_buf_def memcpy_def k)
  moreover have "length ?bs = length bs"
    using assms(4,5) by simp
  moreover have "take ?k ?bs = take ?k src"
    using assms(5) by simp
  moreover have "drop ?k ?bs = drop ?k bs"
    using assms(5) by simp
  moreover have "?k = length bs \<longrightarrow> ?bs = take (length bs) src"
    by simp
  ultimately show ?thesis
    by (intro exI [of _ ?bs] conjI)
qed

theorem copy_buf_prefix_witness:
  "fenster_bridge_copy_buf demo_heap 1 [1, 2, 3, 4, 5] 4
     = Some (demo_heap(2 \<mapsto> Bytes ([1, 2, 3, 4] @ replicate 12 0)))
   \<and> fenster_bridge_copy_buf demo_heap 1 (replicate 16 255) 16
     = Some (demo_heap(2 \<mapsto> Bytes (replicate 16 255)))"
proof (intro conjI)
  have 1: "(0::int) \<le> sint (4 :: c_int)" "nat (sint (4 :: c_int)) \<le> length (replicate 16 (0 :: byte))"
    "nat (sint (4 :: c_int)) \<le> length [1, 2, 3, 4, 5 :: byte]"
    by simp_all
  obtain bs' where a: "fenster_bridge_copy_buf demo_heap 1 [1, 2, 3, 4, 5] 4
       = Some (demo_heap(buf demo_bridge \<mapsto> Bytes bs'))"
    and b: "take (nat (sint (4 :: c_int))) bs' = take (nat (sint (4 :: c_int))) [1, 2, 3, 4, 5]"
      "drop (nat (sint (4 :: c_int))) bs' = drop (nat (sint (4 :: c_int))) (replicate 16 0)"
    using copy_buf_prefix [OF demo_get demo_buf(1) 1] by blast
  have "bs' = take 4 bs' @ drop 4 bs'"
    by simp
  also have "\<dots> = [1, 2, 3, 4] @ replicate 12 0"
    using b by simp
  finally show "fenster_bridge_copy_buf demo_heap 1 [1, 2, 3, 4, 5] 4
     = Some (demo_heap(2 \<mapsto> Bytes ([1, 2, 3, 4] @ replicate 12 0)))"
    using a by (simp add: demo_bridge_def)
  have 2: "(0::int) \<le> sint (16 :: c_int)" "nat (sint (16 :: c_int)) \<le> length (replicate 16 (0 :: byte))"
    "nat (sint (16 :: c_int)) \<le> length (replicate 16 (255 :: byte))"
    by simp_all
  show "fenster_bridge_copy_buf demo_heap 1 (replicate 16 255) 16
     = Some (demo_heap(2 \<mapsto> Bytes (replicate 16 255)))"
    using copy_buf_prefix [OF demo_get demo_buf(1) 2]
    by (auto simp: demo_bridge_def)
qed

subsection \<open>Zero-initialised buffers\<close>

lemma le32_zero: "le32 0 0 0 0 = 0"
  by (simp add: le32_def)

lemma pixels_zero: "pixels (replicate (4 * n) 0) = replicate n 0"
proof (induction n)
  case 0
  show ?case by simp
next
  case (Suc n)
  have "replicate (4 * Suc n) (0 :: byte) = 0 # 0 # 0 # 0 # replicate (4 * n) 0"
    by (simp add: numeral_eq_Suc)
  then show ?case
    using Suc by (simp add: le32_zero)
qed

lemma pixel_bytes_installed:
  assumes "fb \<noteq> NULL" and "a \<noteq> fb" and "buf b' = a"
  shows "pixel_bytes (h(a \<mapsto> Bytes z, fb \<mapsto> Bridge b')) fb = Some z"
    and "a \<noteq> p \<Longrightarrow> pixel_bytes (h(a \<mapsto> Bytes z, p := None, fb \<mapsto> Bridge b')) fb = Some z"
  using assms by (simp_all add: pixel_bytes_def get_bridge_def)

text \<open>
  C10.  Every pixel buffer that the bridge installs is zero-initialised.  After a
  successful \<open>fenster_bridge_create\<close> the buffer of the new handle consists of
  \<open>4 * w * h\<close> zero bytes, which are \<open>w * h\<close> pixels of value 0.  After
  \<open>fenster_bridge_open\<close> or \<open>fenster_bridge_loop\<close> has reallocated (the dimensions differed
  and \<open>calloc\<close> succeeded, on a handle whose buffer is live), the buffer of the handle
  consists of \<open>4 * phys_width * phys_height\<close> zero bytes, which are
  \<open>phys_width * phys_height\<close> pixels of value 0.
\<close>

theorem installed_buffer_zero:
  "(fenster_bridge_create a1 a2 a3 h0 ttl w hh = Some (fb0, h0') \<and> fb0 \<noteq> NULL \<longrightarrow>
      pixel_bytes h0' fb0 = Some (replicate (4 * nat (sint w * sint hh)) 0)
      \<and> pixels (replicate (4 * nat (sint w * sint hh)) 0) = replicate (nat (sint w * sint hh)) 0)
   \<and> (get_bridge h fb = Some b \<and> buf b \<noteq> NULL \<and> h (buf b) = Some (Bytes bs)
        \<and> fenster_open (f b) = (0, f1)
        \<and> (phys_width f1 \<noteq> prev_width b \<or> phys_height f1 \<noteq> prev_height b)
        \<and> fst (calloc a h (scast (phys_width f1) * scast (phys_height f1)) 4) \<noteq> NULL \<longrightarrow>
      (\<exists>h'. fenster_bridge_open fenster_open a h fb = Some (0, h')
         \<and> pixel_bytes h' fb
             = Some (replicate (4 * nat (sint (phys_width f1) * sint (phys_height f1))) 0)
         \<and> pixels (replicate (4 * nat (sint (phys_width f1) * sint (phys_height f1))) 0)
             = replicate (nat (sint (phys_width f1) * sint (phys_height f1))) 0))
   \<and> (get_bridge h fb = Some b \<and> buf b \<noteq> NULL \<and> h (buf b) = Some (Bytes bs)
        \<and> fenster_loop (f b) = (r, f2)
        \<and> (phys_width f2 \<noteq> prev_width b \<or> phys_height f2 \<noteq> prev_height b)
        \<and> fst (calloc a h (scast (phys_width f2) * scast (phys_height f2)) 4) \<noteq> NULL \<longrightarrow>
      (\<exists>h'. fenster_bridge_loop plat fenster_loop xok a h fb = Some (r, h')
         \<and> pixel_bytes h' fb
             = Some (replicate (4 * nat (sint (phys_width f2) * sint (phys_height f2))) 0)
         \<and> pixels (replicate (4 * nat (sint (phys_width f2) * sint (phys_height f2))) 0)
             = replicate (nat (sint (phys_width f2) * sint (phys_height f2))) 0))"
    (is "?create \<and> ?open \<and> ?loop")
proof -
  have "?create"
  proof
    assume c: "fenster_bridge_create a1 a2 a3 h0 ttl w hh = Some (fb0, h0') \<and> fb0 \<noteq> NULL"
    let ?z = "replicate (4 * nat (sint w * sint hh)) (0 :: byte)"
    have 1: "fst (calloc_bridge a1 h0) \<noteq> NULL"
    proof
      assume "fst (calloc_bridge a1 h0) = NULL"
      then have "calloc_bridge a1 h0 = (NULL, h0)"
        by (rule calloc_bridge_NULL)
      then have "fenster_bridge_create a1 a2 a3 h0 ttl w hh = Some (NULL, h0)"
        by (simp add: fenster_bridge_create_def)
      then show False
        using c by simp
    qed
    then have cb: "calloc_bridge a1 h0 = (a1, h0(a1 \<mapsto> Bridge zero_bridge))" "a1 \<noteq> NULL" "h0 a1 = None"
      using calloc_bridge_ok [of a1 h0] by auto
    have 2: "fst (calloc a2 (h0(a1 \<mapsto> Bridge zero_bridge)) (scast w * scast hh) 4) \<noteq> NULL"
    proof
      assume "fst (calloc a2 (h0(a1 \<mapsto> Bridge zero_bridge)) (scast w * scast hh) 4) = NULL"
      then have "calloc a2 (h0(a1 \<mapsto> Bridge zero_bridge)) (scast w * scast hh) 4
          = (NULL, h0(a1 \<mapsto> Bridge zero_bridge))"
        by (rule calloc_NULL)
      then have "fenster_bridge_create a1 a2 a3 h0 ttl w hh = Some (NULL, h0)"
        using cb by (simp add: fenster_bridge_create_def free_fresh)
      then show False
        using c by simp
    qed
    let ?n = "unat (scast w * scast hh :: size_t) * unat (4 :: size_t)"
    have cc: "calloc a2 (h0(a1 \<mapsto> Bridge zero_bridge)) (scast w * scast hh) 4
          = (a2, h0(a1 \<mapsto> Bridge zero_bridge, a2 \<mapsto> Bytes (replicate ?n 0)))"
      "a2 \<noteq> NULL" "(h0(a1 \<mapsto> Bridge zero_bridge)) a2 = None" "?n < 2 ^ 64"
      using calloc_ok [OF 2] by auto
    have n: "?n = 4 * nat (sint w * sint hh)"
      using byte_count cc(4) by blast
    have a12: "a1 \<noteq> a2"
      using cc(3) by auto
    have "pixel_bytes h0' fb0 = Some ?z"
      using c cb cc(1,2) a12 n
      by (auto simp: fenster_bridge_create_def strdup_def put_bridge_def get_bridge_def
          pixel_bytes_def split: if_splits)
    then show "pixel_bytes h0' fb0 = Some ?z \<and> pixels ?z = replicate (nat (sint w * sint hh)) 0"
      by (simp add: pixels_zero)
  qed
  moreover have "?open"
  proof
    assume p: "get_bridge h fb = Some b \<and> buf b \<noteq> NULL \<and> h (buf b) = Some (Bytes bs)
        \<and> fenster_open (f b) = (0, f1)
        \<and> (phys_width f1 \<noteq> prev_width b \<or> phys_height f1 \<noteq> prev_height b)
        \<and> fst (calloc a h (scast (phys_width f1) * scast (phys_height f1)) 4) \<noteq> NULL"
    let ?z = "replicate (4 * nat (sint (phys_width f1) * sint (phys_height f1))) (0 :: byte)"
    let ?h2 = "h(a \<mapsto> Bytes ?z, buf b := None)"
    let ?b2 = "b\<lparr>f := f1\<lparr>f_buf := a\<rparr>, buf := a, prev_width := phys_width f1,
                   prev_height := phys_height f1\<rparr>"
    have r: "open_realloc a h (b\<lparr>f := f1\<rparr>) = Some (?b2, ?h2)" "a \<noteq> NULL" "h a = None"
      using open_realloc_ok [of "b\<lparr>f := f1\<rparr>" a h] p by auto
    have g: "get_bridge ?h2 fb = Some b"
      using get_bridge_after_realloc [of h fb b "buf b" bs a] p r(3) by blast
    have ne: "a \<noteq> buf b" "a \<noteq> fb" "fb \<noteq> NULL"
      using r(3) p by (auto simp: get_bridge_Some)
    have o: "fenster_bridge_open fenster_open a h fb
        = Some (0, ?h2(fb \<mapsto> Bridge (?b2\<lparr>prev_scale := scale f1\<rparr>)))"
      using p r(1) g by (simp add: fenster_bridge_open_def put_bridge_Some)
    have "pixel_bytes (?h2(fb \<mapsto> Bridge (?b2\<lparr>prev_scale := scale f1\<rparr>))) fb = Some ?z"
      using ne by (intro pixel_bytes_installed(2)) auto
    then show "\<exists>h'. fenster_bridge_open fenster_open a h fb = Some (0, h')
         \<and> pixel_bytes h' fb = Some ?z
         \<and> pixels ?z = replicate (nat (sint (phys_width f1) * sint (phys_height f1))) 0"
      using o by (simp add: pixels_zero)
  qed
  moreover have "?loop"
  proof
    assume p: "get_bridge h fb = Some b \<and> buf b \<noteq> NULL \<and> h (buf b) = Some (Bytes bs)
        \<and> fenster_loop (f b) = (r, f2)
        \<and> (phys_width f2 \<noteq> prev_width b \<or> phys_height f2 \<noteq> prev_height b)
        \<and> fst (calloc a h (scast (phys_width f2) * scast (phys_height f2)) 4) \<noteq> NULL"
    let ?z = "replicate (4 * nat (sint (phys_width f2) * sint (phys_height f2))) (0 :: byte)"
    let ?h2 = "h(a \<mapsto> Bytes ?z, buf b := None)"
    obtain b2 where r: "loop_realloc plat xok a h (b\<lparr>f := f2\<rparr>) = Some (b2, ?h2)"
      "buf b2 = a" "a \<noteq> NULL" "h a = None"
      using loop_realloc_ok [of "b\<lparr>f := f2\<rparr>" a h plat xok] p by auto
    have g: "get_bridge ?h2 fb = Some b"
      using get_bridge_after_realloc [of h fb b "buf b" bs a] p r(4) by blast
    have ne: "a \<noteq> buf b" "a \<noteq> fb" "fb \<noteq> NULL"
      using r(4) p by (auto simp: get_bridge_Some)
    have o: "fenster_bridge_loop plat fenster_loop xok a h fb = Some (r, ?h2(fb \<mapsto> Bridge b2))"
      using p r(1) g by (simp add: fenster_bridge_loop_def put_bridge_Some)
    have "pixel_bytes (?h2(fb \<mapsto> Bridge b2)) fb = Some ?z"
      using ne r(2) by (intro pixel_bytes_installed(2)) auto
    then show "\<exists>h'. fenster_bridge_loop plat fenster_loop xok a h fb = Some (r, h')
         \<and> pixel_bytes h' fb = Some ?z
         \<and> pixels ?z = replicate (nat (sint (phys_width f2) * sint (phys_height f2))) 0"
      using o by (simp add: pixels_zero)
  qed
  ultimately show ?thesis
    by (intro conjI)
qed

theorem installed_buffer_zero_witness:
  "fenster_bridge_create 1 2 3 Map.empty ''demo'' 2 2 = Some (1, demo_heap)
   \<and> pixel_bytes demo_heap 1 = Some (replicate 16 0)
   \<and> pixels (replicate 16 0) = replicate 4 0
   \<and> (\<exists>h'. fenster_bridge_open lib_2x 4 demo_heap 1 = Some (0, h')
         \<and> pixel_bytes h' 1 = Some (replicate 64 0))
   \<and> (\<exists>h'. fenster_bridge_loop X11 lib_2x True 5 demo_heap 1 = Some (0, h')
         \<and> pixel_bytes h' 1 = Some (replicate 64 0))
   \<and> pixels (replicate 64 0) = replicate 16 0"
proof -
  have 2: "lib_2x (f demo_bridge) = (0, snd (lib_2x (f demo_bridge)))"
    by (simp add: lib_2x_def)
  have d: "phys_width (snd (lib_2x (f demo_bridge))) = 4"
    "phys_height (snd (lib_2x (f demo_bridge))) = 4"
    "prev_width demo_bridge = 2" "prev_height demo_bridge = 2"
    by (simp_all add: lib_2x_def demo_bridge_def)
  have c4: "fst (calloc 4 demo_heap (scast (4 :: c_int) * scast (4 :: c_int)) 4) \<noteq> NULL"
    and c5: "fst (calloc 5 demo_heap (scast (4 :: c_int) * scast (4 :: c_int)) 4) \<noteq> NULL"
    by (simp_all add: calloc_def demo_free_addr)
  note t = installed_buffer_zero [where ?a1.0 = 1 and ?a2.0 = 2 and ?a3.0 = 3 and ?h0.0 = Map.empty
      and ttl = "''demo''" and w = 2 and hh = 2 and ?fb0.0 = 1 and ?h0' = demo_heap
      and h = demo_heap and fb = 1 and b = demo_bridge and bs = "replicate 16 0"
      and fenster_open = lib_2x and ?f1.0 = "snd (lib_2x (f demo_bridge))"
      and fenster_loop = lib_2x and ?f2.0 = "snd (lib_2x (f demo_bridge))" and r = 0
      and plat = X11 and xok = True]
  show ?thesis
    using t [where a = 4] t [where a = 5] demo_create demo_get demo_buf 2 c4 c5
    by (simp add: d) blast
qed

subsection \<open>What a call does to a maintained handle\<close>

lemma alloc_nonneg:
  fixes w hh :: c_int
  assumes "fst (calloc a h (scast w * scast hh) 4) \<noteq> NULL"
  shows "0 \<le> sint w * sint hh"
proof -
  have "unat (scast w * scast hh :: size_t) * unat (4 :: size_t) < 2 ^ 64"
    using calloc_ok [OF assms] by simp
  then have "unat (scast w * scast hh :: size_t) * 4 < 2 ^ 64"
    by simp
  then have "int (unat (scast w * scast hh :: size_t)) = sint w * sint hh"
    by (rule pixel_count_exact)
  then show ?thesis
    by (metis of_nat_0_le_iff)
qed

subsection \<open>The maintained state is an invariant of every session\<close>

lemma bridge_okD:
  assumes "bridge_ok h fb"
  obtains b bs where "get_bridge h fb = Some b" and "buf b \<noteq> NULL"
    and "h (buf b) = Some (Bytes bs)"
    and "int (length bs) = 4 * sint (prev_width b) * sint (prev_height b)"
  using assms by (auto simp: bridge_ok_def split: option.splits obj.splits)

lemma bridge_ok_keep:
  assumes "get_bridge h fb = Some b" and "buf b \<noteq> NULL" and "h (buf b) = Some (Bytes bs)"
    and "int (length bs) = 4 * sint (prev_width b) * sint (prev_height b)"
    and "buf b' = buf b" and "prev_width b' = prev_width b" and "prev_height b' = prev_height b"
  shows "bridge_ok (h(fb \<mapsto> Bridge b')) fb"
proof -
  have "fb \<noteq> NULL" "buf b \<noteq> fb"
    using assms(1,3) by (auto simp: get_bridge_Some)
  then show ?thesis
    using assms by (simp add: bridge_ok_def get_bridge_def)
qed

lemma bridge_ok_swap:
  assumes "get_bridge h fb = Some b" and "h a = None" and "a \<noteq> NULL" and "buf b' = a"
    and "int (length z) = 4 * sint (prev_width b') * sint (prev_height b')" and "h p \<noteq> None"
  shows "bridge_ok (h(a \<mapsto> Bytes z, p := None, fb \<mapsto> Bridge b')) fb"
proof -
  have "fb \<noteq> NULL" "a \<noteq> fb" "a \<noteq> p"
    using assms(1,2,6) by (auto simp: get_bridge_Some)
  then show ?thesis
    using assms by (simp add: bridge_ok_def get_bridge_def)
qed

lemma zero_block_length:
  fixes w hh :: c_int
  assumes "fst (calloc a h (scast w * scast hh) 4) \<noteq> NULL"
  shows "int (length (replicate (4 * nat (sint w * sint hh)) (0 :: byte))) = 4 * sint w * sint hh"
  using alloc_nonneg [OF assms] by simp

lemma step_bridge_ok:
  assumes "bridge_ok h fb" and "step plat h fb c = Some h'"
  shows "bridge_ok h' fb"
proof -
  from assms(1) obtain b bs where b: "get_bridge h fb = Some b" "buf b \<noteq> NULL"
      "h (buf b) = Some (Bytes bs)"
      "int (length bs) = 4 * sint (prev_width b) * sint (prev_height b)"
    by (rule bridge_okD)
  note keep = bridge_ok_keep [OF b]
  show ?thesis
  proof (cases c)
    case (Open lib a)
    obtain r f1 where l: "lib (f b) = (r, f1)"
      by (cases "lib (f b)")
    show ?thesis
    proof (cases "r = 0 \<and> (phys_width f1 \<noteq> prev_width b \<or> phys_height f1 \<noteq> prev_height b)
               \<and> fst (calloc a h (scast (phys_width f1) * scast (phys_height f1)) 4) \<noteq> NULL")
      case True
      then have "h' = h(a \<mapsto> Bytes (replicate (4 * nat (sint (phys_width f1) * sint (phys_height f1))) 0),
              buf b := None,
              fb \<mapsto> Bridge (b\<lparr>f := f1\<lparr>f_buf := a\<rparr>, buf := a,
                              prev_width := phys_width f1, prev_height := phys_height f1,
                              prev_scale := scale f1\<rparr>))"
        using assms(2) Open open_eq [where lib = lib and a = a, OF b(1-3) l] by simp
      moreover have "h a = None" "a \<noteq> NULL"
        using True calloc_ok by blast+
      ultimately show ?thesis
        using True zero_block_length b(3) by (auto intro!: bridge_ok_swap [OF b(1)])
    next
      case False
      then have "h' = h(fb \<mapsto> Bridge (b\<lparr>f := f1\<rparr>))
          \<or> h' = h(fb \<mapsto> Bridge (b\<lparr>f := f1, prev_scale := scale f1\<rparr>))"
        using assms(2) Open open_eq [where lib = lib and a = a, OF b(1-3) l] by (auto split: if_splits)
      then show ?thesis
        by (auto intro!: keep)
    qed
  next
    case (Loop lib xok a)
    obtain r f1 where l: "lib (f b) = (r, f1)"
      by (cases "lib (f b)")
    show ?thesis
    proof (cases "(phys_width f1 \<noteq> prev_width b \<or> phys_height f1 \<noteq> prev_height b)
               \<and> fst (calloc a h (scast (phys_width f1) * scast (phys_height f1)) 4) \<noteq> NULL")
      case True
      then have "h' = h(a \<mapsto> Bytes (replicate (4 * nat (sint (phys_width f1) * sint (phys_height f1))) 0),
              buf b := None,
              fb \<mapsto> Bridge (b\<lparr>f := (if plat = X11
                                    then f1\<lparr>f_buf := a,
                                           img := XCreateImage xok a (phys_width f1) (phys_height f1)\<rparr>
                                    else f1\<lparr>f_buf := a\<rparr>),
                              buf := a, resized := 1,
                              prev_width := phys_width f1, prev_height := phys_height f1,
                              prev_scale := scale f1\<rparr>))"
        using assms(2) Loop loop_eq [where lib = lib and a = a and plat = plat and xok = xok, OF b(1-3) l] by simp
      moreover have "h a = None" "a \<noteq> NULL"
        using True calloc_ok by blast+
      ultimately show ?thesis
        using True zero_block_length b(3) by (auto intro!: bridge_ok_swap [OF b(1)])
    next
      case False
      then have "h' = h(fb \<mapsto> Bridge (b\<lparr>f := f1\<rparr>))"
        using assms(2) Loop loop_eq [where lib = lib and a = a and plat = plat and xok = xok, OF b(1-3) l] by (auto split: if_splits)
      then show ?thesis
        by (auto intro!: keep)
    qed
  next
    case (CopyBuf src n)
    then obtain bs' where "h' = h(buf b \<mapsto> Bytes bs')" "length bs' = length bs"
      using assms(2) b(1,3)
      by (auto simp: fenster_bridge_copy_buf_def memcpy_def split: if_splits)
    moreover have "fb \<noteq> NULL" "buf b \<noteq> fb"
      using b(1,3) by (auto simp: get_bridge_Some)
    ultimately show ?thesis
      using b by (simp add: bridge_ok_def get_bridge_def)
  next
    case GetResized
    then have "h' = h(fb \<mapsto> Bridge (b\<lparr>resized := 0\<rparr>))"
      using assms(2) b(1) by (simp add: fenster_bridge_get_resized_def put_bridge_Some)
    then show ?thesis
      by (auto intro!: keep)
  next
    case (SetScale s)
    then have "fenster_bridge_set_scale h fb s = Some h'"
      using assms(2) by simp
    then obtain pw ph where
      "h' = h(fb \<mapsto> Bridge (b\<lparr>f := (f b)\<lparr>scale := s, phys_width := pw, phys_height := ph\<rparr>\<rparr>))"
      using b(1) by (elim set_scale_cases [rotated])
    then show ?thesis
      by (auto intro!: keep)
  qed (use assms in \<open>auto simp: fenster_bridge_get_buf_def fenster_bridge_get_keys_def
        fenster_bridge_get_mod_def fenster_bridge_get_size_def fenster_bridge_get_scale_def\<close>)
qed

lemma run_bridge_ok:
  "bridge_ok h fb \<Longrightarrow> run plat h fb cs = Some h' \<Longrightarrow> bridge_ok h' fb"
proof (induction cs arbitrary: h)
  case Nil
  then show ?case by simp
next
  case (Cons c cs)
  then show ?case
    by (auto split: option.splits dest: step_bridge_ok)
qed

lemma ptrs_agree_upd:
  "fb \<noteq> NULL \<Longrightarrow> ptrs_agree (h(fb \<mapsto> Bridge b')) fb \<longleftrightarrow> buf b' = f_buf (f b')"
  by (simp add: ptrs_agree_def get_bridge_def)

lemma ptrs_agree_other:
  "p \<noteq> fb \<Longrightarrow> ptrs_agree (h(p \<mapsto> x)) fb = ptrs_agree h fb"
  by (simp add: ptrs_agree_def get_bridge_def)

lemma step_ptrs_agree:
  assumes "bridge_ok h fb" and "ptrs_agree h fb" and "call_keeps_buf c"
    and "step plat h fb c = Some h'"
  shows "ptrs_agree h' fb"
proof -
  from assms(1) obtain b bs where b: "get_bridge h fb = Some b" "buf b \<noteq> NULL"
      "h (buf b) = Some (Bytes bs)"
    by (rule bridge_okD)
  have eq: "buf b = f_buf (f b)"
    using assms(2) b(1) by (simp add: ptrs_agree_def)
  have fb: "fb \<noteq> NULL" "buf b \<noteq> fb"
    using b(1,3) by (auto simp: get_bridge_Some)
  show ?thesis
  proof (cases c)
    case (Open lib a)
    obtain r f1 where l: "lib (f b) = (r, f1)"
      by (cases "lib (f b)")
    have "f_buf (snd (lib (f b))) = f_buf (f b)"
      using assms(3) Open by (simp add: keeps_buf_def)
    then have k: "f_buf f1 = buf b"
      using l eq by simp
    have "fenster_bridge_open lib a h fb = Some (r, h')"
      using assms(4) Open open_eq [where lib = lib and a = a, OF b l] by auto
    then show ?thesis
      using open_eq [where lib = lib and a = a, OF b l] k fb
      by (auto simp: ptrs_agree_upd split: if_splits)
  next
    case (Loop lib xok a)
    obtain r f1 where l: "lib (f b) = (r, f1)"
      by (cases "lib (f b)")
    have "f_buf (snd (lib (f b))) = f_buf (f b)"
      using assms(3) Loop by (simp add: keeps_buf_def)
    then have k: "f_buf f1 = buf b"
      using l eq by simp
    have "fenster_bridge_loop plat lib xok a h fb = Some (r, h')"
      using assms(4) Loop loop_eq [where lib = lib and a = a and plat = plat and xok = xok, OF b l]
      by auto
    then show ?thesis
      using loop_eq [where lib = lib and a = a and plat = plat and xok = xok, OF b l] k fb
      by (auto simp: ptrs_agree_upd split: if_splits)
  next
    case (CopyBuf src n)
    then obtain bs' where "h' = h(buf b \<mapsto> Bytes bs')"
      using assms(4) b(1,3)
      by (auto simp: fenster_bridge_copy_buf_def memcpy_def split: if_splits)
    then show ?thesis
      using assms(2) fb by (simp add: ptrs_agree_other)
  next
    case GetResized
    then have "h' = h(fb \<mapsto> Bridge (b\<lparr>resized := 0\<rparr>))"
      using assms(4) b(1) by (simp add: fenster_bridge_get_resized_def put_bridge_Some)
    then show ?thesis
      using eq fb by (simp add: ptrs_agree_upd)
  next
    case (SetScale s)
    then have "fenster_bridge_set_scale h fb s = Some h'"
      using assms(4) by simp
    then obtain pw ph where
      "h' = h(fb \<mapsto> Bridge (b\<lparr>f := (f b)\<lparr>scale := s, phys_width := pw, phys_height := ph\<rparr>\<rparr>))"
      using b(1) by (elim set_scale_cases [rotated])
    then show ?thesis
      using eq fb by (simp add: ptrs_agree_upd)
  qed (use assms in \<open>auto simp: fenster_bridge_get_buf_def fenster_bridge_get_keys_def
        fenster_bridge_get_mod_def fenster_bridge_get_size_def fenster_bridge_get_scale_def\<close>)
qed

lemma run_ptrs_agree:
  "bridge_ok h fb \<Longrightarrow> ptrs_agree h fb \<Longrightarrow> \<forall>c \<in> set cs. call_keeps_buf c \<Longrightarrow>
     run plat h fb cs = Some h' \<Longrightarrow> ptrs_agree h' fb"
proof (induction cs arbitrary: h)
  case Nil
  then show ?case by simp
next
  case (Cons c cs)
  from Cons.prems(4) obtain h1 where s: "step plat h fb c = Some h1"
    and r: "run plat h1 fb cs = Some h'"
    by (auto split: option.splits)
  have "bridge_ok h1 fb"
    using Cons.prems(1) s by (rule step_bridge_ok)
  moreover have "ptrs_agree h1 fb"
    using Cons.prems(1,2) _ s by (rule step_ptrs_agree) (use Cons.prems(3) in simp)
  ultimately show ?case
    using Cons.IH [of h1] Cons.prems(3) r by simp
qed

lemma create_established:
  assumes "fenster_bridge_create a1 a2 a3 h0 ttl w hh = Some (fb, h1)" and "fb \<noteq> NULL"
  shows "bridge_ok h1 fb \<and> ptrs_agree h1 fb"
proof -
  have 1: "fst (calloc_bridge a1 h0) \<noteq> NULL"
  proof
    assume "fst (calloc_bridge a1 h0) = NULL"
    then have "calloc_bridge a1 h0 = (NULL, h0)"
      by (rule calloc_bridge_NULL)
    then have "fenster_bridge_create a1 a2 a3 h0 ttl w hh = Some (NULL, h0)"
      by (simp add: fenster_bridge_create_def)
    then show False
      using assms by simp
  qed
  then have cb: "calloc_bridge a1 h0 = (a1, h0(a1 \<mapsto> Bridge zero_bridge))" "a1 \<noteq> NULL" "h0 a1 = None"
    using calloc_bridge_ok [of a1 h0] by auto
  have 2: "fst (calloc a2 (h0(a1 \<mapsto> Bridge zero_bridge)) (scast w * scast hh) 4) \<noteq> NULL"
  proof
    assume "fst (calloc a2 (h0(a1 \<mapsto> Bridge zero_bridge)) (scast w * scast hh) 4) = NULL"
    then have "calloc a2 (h0(a1 \<mapsto> Bridge zero_bridge)) (scast w * scast hh) 4
        = (NULL, h0(a1 \<mapsto> Bridge zero_bridge))"
      by (rule calloc_NULL)
    then have "fenster_bridge_create a1 a2 a3 h0 ttl w hh = Some (NULL, h0)"
      using cb by (simp add: fenster_bridge_create_def free_fresh)
    then show False
      using assms by simp
  qed
  let ?n = "unat (scast w * scast hh :: size_t) * unat (4 :: size_t)"
  have cc: "calloc a2 (h0(a1 \<mapsto> Bridge zero_bridge)) (scast w * scast hh) 4
        = (a2, h0(a1 \<mapsto> Bridge zero_bridge, a2 \<mapsto> Bytes (replicate ?n 0)))"
    "a2 \<noteq> NULL" "(h0(a1 \<mapsto> Bridge zero_bridge)) a2 = None" "?n < 2 ^ 64"
    using calloc_ok [OF 2] by auto
  have n: "int ?n = 4 * sint w * sint hh"
    using byte_count [of w hh] cc(4) alloc_nonneg [OF 2] by simp
  have a12: "a1 \<noteq> a2"
    using cc(3) by auto
  show ?thesis
    using assms cb cc(1,2) a12 n
    by (auto simp: fenster_bridge_create_def strdup_def put_bridge_def get_bridge_def
        bridge_ok_def ptrs_agree_def split: if_splits)
qed

subsection \<open>The two buffer pointers\<close>

text \<open>
  C1.  In every state that a session reaches from \<open>fenster_bridge_create\<close> (through
  open, loop, the accessors, \<open>copy_buf\<close>, \<open>get_resized\<close> and \<open>set_scale\<close>, with a window
  library that does not assign the \<open>buf\<close> member of its state), the handle is live and
  its buffer pointer \<open>fb->buf\<close> equals the window state's \<open>fb->f.buf\<close>.
\<close>

theorem buffer_pointers_agree:
  assumes "fenster_bridge_create a1 a2 a3 h0 ttl w hh = Some (fb, h1)" and "fb \<noteq> NULL"
    and "\<forall>c \<in> set cs. call_keeps_buf c" and "run plat h1 fb cs = Some h2"
  shows "\<exists>b. get_bridge h2 fb = Some b \<and> buf b = f_buf (f b)"
proof -
  have "bridge_ok h1 fb" "ptrs_agree h1 fb"
    using create_established [OF assms(1,2)] by simp_all
  then have "ptrs_agree h2 fb"
    using assms(3,4) by (rule run_ptrs_agree)
  then show ?thesis
    by (auto simp: ptrs_agree_def split: option.splits)
qed

lemma demo_libs_keep_buf: "keeps_buf lib_1x" "keeps_buf lib_2x" "keeps_buf lib_idle" "keeps_buf lib_fail"
  by (simp_all add: keeps_buf_def lib_1x_def lib_2x_def lib_idle_def lib_fail_def)

lemma demo_open_2x: "fenster_bridge_open lib_2x 4 demo_heap 1 = Some (0, demo_heap_2x)"
proof -
  have l: "lib_2x (f demo_bridge) = (0, f demo_bridge_2x)"
    by (simp add: lib_2x_def demo_bridge_2x_def demo_bridge_def zero_fenster_def)
  show ?thesis
    using open_eq [where lib = lib_2x and a = 4, OF demo_get demo_buf(2) demo_buf(1) l]
    by (simp add: demo_heap_2x_def demo_bridge_2x_def demo_bridge_def zero_fenster_def
        calloc_def demo_free_addr)
qed

lemma demo_get_2x:
  "get_bridge demo_heap_2x 1
     = Some (demo_bridge_2x\<lparr>f := (f demo_bridge_2x)\<lparr>f_buf := 4\<rparr>, buf := 4,
               prev_width := 4, prev_height := 4, prev_scale := two_f\<rparr>)"
  by (simp add: demo_heap_2x_def get_bridge_def)

lemma demo_run:
  "run X11 demo_heap 1 [Open lib_2x 4, GetBuf, GetResized] = Some demo_heap_2x"
proof -
  have "demo_heap_2x(1 \<mapsto> Bridge (demo_bridge_2x\<lparr>f := (f demo_bridge_2x)\<lparr>f_buf := 4\<rparr>,
            buf := 4, prev_width := 4, prev_height := 4, prev_scale := two_f, resized := 0\<rparr>))
        = demo_heap_2x"
    by (simp add: demo_heap_2x_def demo_bridge_2x_def demo_bridge_def)
  then show ?thesis
    by (simp del: One_nat_def add: demo_open_2x demo_get_2x fenster_bridge_get_buf_def
        fenster_bridge_get_resized_def put_bridge_def)
qed

theorem buffer_pointers_agree_witness:
  "run X11 demo_heap 1 [Open lib_2x 4, GetBuf, GetResized] = Some demo_heap_2x
   \<and> (\<exists>b. get_bridge demo_heap_2x 1 = Some b \<and> buf b = 4 \<and> f_buf (f b) = 4)"
proof -
  have k: "\<forall>c \<in> set [Open lib_2x 4, GetBuf, GetResized]. call_keeps_buf c"
    by (simp add: demo_libs_keep_buf)
  have n: "(1 :: addr) \<noteq> NULL"
    by simp
  obtain b where "get_bridge demo_heap_2x 1 = Some b" "buf b = f_buf (f b)"
    using buffer_pointers_agree [OF demo_create n k demo_run] by blast
  then show ?thesis
    using demo_run by (auto simp del: One_nat_def simp: demo_get_2x)
qed

subsection \<open>The length of the buffer\<close>

lemma demo_sizes:
  "buf_size demo_heap 1 = Some 16" "phys_size demo_heap 1 = Some 0"
  "buf_size (demo_heap(1 \<mapsto> Bridge demo_bridge_2x)) 1 = Some 16"
  "phys_size (demo_heap(1 \<mapsto> Bridge demo_bridge_2x)) 1 = Some 64"
  "buf_size (demo_heap(1 \<mapsto> Bridge (demo_bridge_2x\<lparr>prev_scale := two_f\<rparr>))) 1 = Some 16"
  "phys_size (demo_heap(1 \<mapsto> Bridge (demo_bridge_2x\<lparr>prev_scale := two_f\<rparr>))) 1 = Some 64"
  by (simp_all add: buf_size_def phys_size_def pixel_bytes_def get_bridge_def demo_heap_def
      demo_bridge_2x_def demo_bridge_def zero_fenster_def)

lemma demo_lib_2x: "lib_2x (f demo_bridge) = (0, f demo_bridge_2x)"
  by (simp add: lib_2x_def demo_bridge_2x_def demo_bridge_def zero_fenster_def)

lemma demo_stale:
  "run X11 demo_heap 1 [SetScale two_f] = Some (demo_heap(1 \<mapsto> Bridge demo_bridge_2x))"
  "run X11 demo_heap 1 [Open lib_2x NULL]
     = Some (demo_heap(1 \<mapsto> Bridge (demo_bridge_2x\<lparr>prev_scale := two_f\<rparr>)))"
  "run X11 demo_heap 1 [Loop lib_2x True NULL]
     = Some (demo_heap(1 \<mapsto> Bridge demo_bridge_2x))"
proof -
  show "run X11 demo_heap 1 [SetScale two_f] = Some (demo_heap(1 \<mapsto> Bridge demo_bridge_2x))"
    using set_scale_eq [OF demo_get, of two_f 4 4]
    by (simp del: One_nat_def add: demo_scale_dim demo_bridge_2x_def demo_bridge_def
        zero_fenster_def)
  show "run X11 demo_heap 1 [Open lib_2x NULL]
     = Some (demo_heap(1 \<mapsto> Bridge (demo_bridge_2x\<lparr>prev_scale := two_f\<rparr>)))"
    using open_eq [where lib = lib_2x and a = NULL, OF demo_get demo_buf(2) demo_buf(1) demo_lib_2x]
    by (simp del: One_nat_def add: calloc_def demo_bridge_2x_def demo_bridge_def zero_fenster_def)
  show "run X11 demo_heap 1 [Loop lib_2x True NULL]
     = Some (demo_heap(1 \<mapsto> Bridge demo_bridge_2x))"
    using loop_eq [where lib = lib_2x and a = NULL and plat = X11 and xok = True,
        OF demo_get demo_buf(2) demo_buf(1) demo_lib_2x]
    by (simp del: One_nat_def add: calloc_def demo_bridge_2x_def demo_bridge_def zero_fenster_def)
qed

text \<open>
  C2, as claimed, fails.  Right after \<open>fenster_bridge_create\<close> for a 2 by 2 window the
  buffer has 16 bytes while the physical dimensions of the window state are still 0 by 0.
  After \<open>fenster_bridge_set_scale\<close> with \<open>2.0f\<close>, and after \<open>fenster_bridge_open\<close> or
  \<open>fenster_bridge_loop\<close> on a display of scale 2 when \<open>calloc\<close> fails, the physical
  dimensions are 4 by 4, which asks for 64 bytes, and the buffer still has 16.
\<close>

theorem buffer_length_phys_counterexample:
  "fenster_bridge_create 1 2 3 Map.empty ''demo'' 2 2 = Some (1, demo_heap)
   \<and> buf_size demo_heap 1 = Some 16 \<and> phys_size demo_heap 1 = Some 0
   \<and> run X11 demo_heap 1 [SetScale two_f]
       = Some (demo_heap(1 \<mapsto> Bridge demo_bridge_2x))
   \<and> run X11 demo_heap 1 [Loop lib_2x True NULL]
       = Some (demo_heap(1 \<mapsto> Bridge demo_bridge_2x))
   \<and> buf_size (demo_heap(1 \<mapsto> Bridge demo_bridge_2x)) 1 = Some 16
   \<and> phys_size (demo_heap(1 \<mapsto> Bridge demo_bridge_2x)) 1 = Some 64
   \<and> run X11 demo_heap 1 [Open lib_2x NULL]
       = Some (demo_heap(1 \<mapsto> Bridge (demo_bridge_2x\<lparr>prev_scale := two_f\<rparr>)))
   \<and> buf_size (demo_heap(1 \<mapsto> Bridge (demo_bridge_2x\<lparr>prev_scale := two_f\<rparr>))) 1 = Some 16
   \<and> phys_size (demo_heap(1 \<mapsto> Bridge (demo_bridge_2x\<lparr>prev_scale := two_f\<rparr>))) 1 = Some 64"
  using demo_create demo_sizes demo_stale by simp

text \<open>
  C2, amended.  In every state that a session reaches from \<open>fenster_bridge_create\<close>, the
  buffer pointer of the handle is a live block whose length in bytes is
  \<open>prev_width * prev_height * 4\<close>, for the cached dimensions; it is
  \<open>phys_width * phys_height * 4\<close> whenever the physical dimensions of the window state
  equal the cached ones.
\<close>

theorem buffer_length_cached:
  assumes "fenster_bridge_create a1 a2 a3 h0 ttl w hh = Some (fb, h1)" and "fb \<noteq> NULL"
    and "run plat h1 fb cs = Some h2"
  shows "buf_size h2 fb \<noteq> None \<and> buf_size h2 fb = cached_size h2 fb
       \<and> (in_sync h2 fb \<longrightarrow> buf_size h2 fb = phys_size h2 fb)"
proof -
  have "bridge_ok h1 fb"
    using create_established [OF assms(1,2)] by simp
  then have "bridge_ok h2 fb"
    using assms(3) by (rule run_bridge_ok)
  then obtain b bs where "get_bridge h2 fb = Some b" "h2 (buf b) = Some (Bytes bs)"
      "int (length bs) = 4 * sint (prev_width b) * sint (prev_height b)"
    by (rule bridge_okD)
  then show ?thesis
    by (simp add: buf_size_def cached_size_def phys_size_def in_sync_def pixel_bytes_def)
qed

theorem buffer_length_cached_witness:
  "run X11 demo_heap 1 [Open lib_2x 4, GetBuf, GetResized] = Some demo_heap_2x
   \<and> in_sync demo_heap_2x 1 \<and> buf_size demo_heap_2x 1 = Some 64
   \<and> cached_size demo_heap_2x 1 = Some 64 \<and> phys_size demo_heap_2x 1 = Some 64"
proof -
  have n: "(1 :: addr) \<noteq> NULL"
    by simp
  have s: "in_sync demo_heap_2x 1"
    by (simp del: One_nat_def add: in_sync_def demo_get_2x demo_bridge_2x_def)
  have c: "cached_size demo_heap_2x 1 = Some 64"
    by (simp del: One_nat_def add: cached_size_def demo_get_2x)
  have t: "buf_size demo_heap_2x 1 \<noteq> None
      \<and> buf_size demo_heap_2x 1 = cached_size demo_heap_2x 1
      \<and> (in_sync demo_heap_2x 1 \<longrightarrow> buf_size demo_heap_2x 1 = phys_size demo_heap_2x 1)"
    by (rule buffer_length_cached [OF demo_create n demo_run])
  from t s have e1: "buf_size demo_heap_2x 1 = cached_size demo_heap_2x 1"
    and e2: "buf_size demo_heap_2x 1 = phys_size demo_heap_2x 1"
    by blast+
  have b: "buf_size demo_heap_2x 1 = Some 64"
    using e1 c by (rule trans)
  have p: "phys_size demo_heap_2x 1 = Some 64"
    using e2 [symmetric] b by (rule trans)
  show ?thesis
    using demo_run s b c p by (intro conjI)
qed

subsection \<open>Reading the resize flag\<close>

lemma get_resized_eq:
  assumes "get_bridge h fb = Some b"
  shows "fenster_bridge_get_resized h fb
     = Some (resized b, phys_width (f b), phys_height (f b), h(fb \<mapsto> Bridge (b\<lparr>resized := 0\<rparr>)))"
  using assms by (simp add: fenster_bridge_get_resized_def put_bridge_Some)

lemma settledD:
  assumes "settled h fb pw ph"
  obtains b where "get_bridge h fb = Some b" and "resized b = 0"
    and "phys_width (f b) = pw" and "phys_height (f b) = ph"
    and "prev_width b = pw" and "prev_height b = ph"
  using assms by (auto simp: settled_def split: option.splits)

lemma settled_upd:
  assumes "fb \<noteq> NULL" and "resized b' = 0"
    and "phys_width (f b') = pw" and "phys_height (f b') = ph"
    and "prev_width b' = pw" and "prev_height b' = ph"
  shows "settled (h(fb \<mapsto> Bridge b')) fb pw ph"
  using assms by (simp add: settled_def get_bridge_def)

lemma step_settled:
  assumes "settled h fb pw ph" and "quiet c" and "step plat h fb c = Some h'"
  shows "settled h' fb pw ph"
proof -
  from assms(1) obtain b where b: "get_bridge h fb = Some b" "resized b = 0"
      "phys_width (f b) = pw" "phys_height (f b) = ph" "prev_width b = pw" "prev_height b = ph"
    by (rule settledD)
  have fb: "fb \<noteq> NULL"
    using b(1) by (simp add: get_bridge_Some)
  show ?thesis
  proof (cases c)
    case (Open lib a)
    obtain r f1 where l: "lib (f b) = (r, f1)"
      by (cases "lib (f b)")
    have "phys_width (snd (lib (f b))) = phys_width (f b)"
      "phys_height (snd (lib (f b))) = phys_height (f b)"
      using assms(2) Open by (simp_all add: keeps_phys_def)
    then have p: "phys_width f1 = pw" "phys_height f1 = ph"
      using l b by simp_all
    then have "open_realloc a h (b\<lparr>f := f1\<rparr>) = Some (b\<lparr>f := f1\<rparr>, h)"
      using b by (simp add: open_realloc_same)
    then have "h' = h(fb \<mapsto> Bridge (b\<lparr>f := f1\<rparr>))
        \<or> h' = h(fb \<mapsto> Bridge (b\<lparr>f := f1, prev_scale := scale f1\<rparr>))"
      using assms(3) Open b(1) l
      by (auto simp: fenster_bridge_open_def put_bridge_Some split: if_splits)
    then show ?thesis
      using fb b p by (auto intro!: settled_upd)
  next
    case (Loop lib xok a)
    obtain r f1 where l: "lib (f b) = (r, f1)"
      by (cases "lib (f b)")
    have "phys_width (snd (lib (f b))) = phys_width (f b)"
      "phys_height (snd (lib (f b))) = phys_height (f b)"
      using assms(2) Loop by (simp_all add: keeps_phys_def)
    then have p: "phys_width f1 = pw" "phys_height f1 = ph"
      using l b by simp_all
    then have "loop_realloc plat xok a h (b\<lparr>f := f1\<rparr>) = Some (b\<lparr>f := f1\<rparr>, h)"
      using b by (simp add: loop_realloc_same)
    then have "h' = h(fb \<mapsto> Bridge (b\<lparr>f := f1\<rparr>))"
      using assms(3) Loop b(1) l
      by (auto simp: fenster_bridge_loop_def put_bridge_Some)
    then show ?thesis
      using fb b p by (auto intro!: settled_upd)
  next
    case (CopyBuf src n)
    then obtain bs bs' where "h (buf b) = Some (Bytes bs)" "h' = h(buf b \<mapsto> Bytes bs')"
      using assms(3) b(1)
      by (auto simp: fenster_bridge_copy_buf_def memcpy_def split: if_splits option.splits obj.splits)
    moreover from this have "buf b \<noteq> fb"
      using b(1) by (auto simp: get_bridge_Some)
    ultimately have "get_bridge h' fb = get_bridge h fb"
      by (simp add: get_bridge_def)
    then show ?thesis
      using assms(1) by (simp add: settled_def)
  next
    case GetResized
    then have "h' = h(fb \<mapsto> Bridge (b\<lparr>resized := 0\<rparr>))"
      using assms(3) b(1) by (simp add: get_resized_eq)
    then show ?thesis
      using fb b by (auto intro!: settled_upd)
  next
    case (SetScale s)
    then show ?thesis
      using assms(2) by simp
  qed (use assms in \<open>auto simp: fenster_bridge_get_buf_def fenster_bridge_get_keys_def
        fenster_bridge_get_mod_def fenster_bridge_get_size_def fenster_bridge_get_scale_def\<close>)
qed

lemma run_settled:
  "settled h fb pw ph \<Longrightarrow> \<forall>c \<in> set cs. quiet c \<Longrightarrow> run plat h fb cs = Some h' \<Longrightarrow>
     settled h' fb pw ph"
proof (induction cs arbitrary: h)
  case Nil
  then show ?case by simp
next
  case (Cons c cs)
  from Cons.prems(3) obtain h1 where s: "step plat h fb c = Some h1"
    and r: "run plat h1 fb cs = Some h'"
    by (auto split: option.splits)
  have "settled h1 fb pw ph"
    using Cons.prems(1) _ s by (rule step_settled) (use Cons.prems(2) in simp)
  then show ?case
    using Cons.IH [of h1] Cons.prems(2) r by simp
qed

lemma demo_flags:
  "fenster_bridge_get_resized demo_heap_open 1 = Some (0, 2, 2, demo_heap_open)"
  "fenster_bridge_get_resized demo_heap_moved 1 = Some (0, 4, 4, demo_heap_moved)"
  "fenster_bridge_get_resized demo_heap_late 1 = Some (1, 4, 4, demo_heap_done)"
  "fenster_bridge_get_resized demo_heap_done 1 = Some (0, 4, 4, demo_heap_done)"
proof -
  have g: "get_bridge demo_heap_open 1 = Some demo_bridge_open"
    "get_bridge demo_heap_moved 1 = Some demo_bridge_moved"
    "get_bridge demo_heap_late 1 = Some demo_bridge_late"
    "get_bridge demo_heap_done 1 = Some (demo_bridge_late\<lparr>resized := 0\<rparr>)"
    by (simp_all add: get_bridge_def demo_heap_open_def demo_heap_moved_def demo_heap_late_def
        demo_heap_done_def)
  show "fenster_bridge_get_resized demo_heap_open 1 = Some (0, 2, 2, demo_heap_open)"
    using get_resized_eq [OF g(1)]
    by (simp add: demo_heap_open_def demo_bridge_open_def demo_bridge_def)
  show "fenster_bridge_get_resized demo_heap_moved 1 = Some (0, 4, 4, demo_heap_moved)"
    using get_resized_eq [OF g(2)]
    by (simp add: demo_heap_moved_def demo_bridge_moved_def demo_bridge_open_def demo_bridge_def)
  show "fenster_bridge_get_resized demo_heap_late 1 = Some (1, 4, 4, demo_heap_done)"
    using get_resized_eq [OF g(3)]
    by (simp add: demo_heap_late_def demo_heap_done_def demo_bridge_late_def
        demo_bridge_moved_def)
  show "fenster_bridge_get_resized demo_heap_done 1 = Some (0, 4, 4, demo_heap_done)"
    using get_resized_eq [OF g(4)]
    by (simp add: demo_heap_done_def demo_bridge_late_def demo_bridge_moved_def)
qed

lemma step_flag:
  assumes "get_bridge h fb = Some b" and "buf b \<noteq> NULL" and "h (buf b) = Some (Bytes bs)"
    and "step plat h fb c = Some h2"
  shows "\<exists>b2. get_bridge h2 fb = Some b2
     \<and> resized b2 = (if sets_flag h b c then 1 else if c = GetResized then 0 else resized b)"
proof -
  have fb: "fb \<noteq> NULL"
    using assms(1) by (simp add: get_bridge_Some)
  show ?thesis
  proof (cases c)
    case (Open lib a)
    obtain r f1 where l: "lib (f b) = (r, f1)"
      by (cases "lib (f b)")
    have "fenster_bridge_open lib a h fb = Some (r, h2)"
      using assms(4) Open open_eq [where lib = lib and a = a, OF assms(1,2,3) l] by simp
    then have "h2 = h(fb \<mapsto> Bridge (b\<lparr>f := f1\<rparr>))
        \<or> h2 = h(a \<mapsto> Bytes (replicate (4 * nat (sint (phys_width f1) * sint (phys_height f1))) 0),
              buf b := None,
              fb \<mapsto> Bridge (b\<lparr>f := f1\<lparr>f_buf := a\<rparr>, buf := a,
                              prev_width := phys_width f1, prev_height := phys_height f1,
                              prev_scale := scale f1\<rparr>))
        \<or> h2 = h(fb \<mapsto> Bridge (b\<lparr>f := f1, prev_scale := scale f1\<rparr>))"
      unfolding open_eq [where lib = lib and a = a, OF assms(1,2,3) l]
      by (simp split: if_splits)
    then show ?thesis
      using fb Open by (auto simp: get_bridge_def)
  next
    case (Loop lib xok a)
    obtain r f1 where l: "lib (f b) = (r, f1)"
      by (cases "lib (f b)")
    let ?d = "(phys_width f1 \<noteq> prev_width b \<or> phys_height f1 \<noteq> prev_height b)
         \<and> fst (calloc a h (scast (phys_width f1) * scast (phys_height f1)) 4) \<noteq> NULL"
    have sf: "sets_flag h b c = ?d"
      using Loop l by (simp add: Let_def)
    have "fenster_bridge_loop plat lib xok a h fb = Some (r, h2)"
      using assms(4) Loop
        loop_eq [where lib = lib and a = a and plat = plat and xok = xok, OF assms(1,2,3) l]
      by simp
    then have "(?d \<and> h2 = h(a \<mapsto> Bytes (replicate (4 * nat (sint (phys_width f1) * sint (phys_height f1))) 0),
              buf b := None,
              fb \<mapsto> Bridge (b\<lparr>f := (if plat = X11
                                    then f1\<lparr>f_buf := a,
                                           img := XCreateImage xok a (phys_width f1) (phys_height f1)\<rparr>
                                    else f1\<lparr>f_buf := a\<rparr>),
                              buf := a, resized := 1,
                              prev_width := phys_width f1, prev_height := phys_height f1,
                              prev_scale := scale f1\<rparr>)))
        \<or> (\<not> ?d \<and> h2 = h(fb \<mapsto> Bridge (b\<lparr>f := f1\<rparr>)))"
      unfolding loop_eq [where lib = lib and a = a and plat = plat and xok = xok,
          OF assms(1,2,3) l]
      by (simp split: if_splits)
    then show ?thesis
      unfolding sf using fb Loop by (auto simp: get_bridge_def)
  next
    case (CopyBuf src n)
    then obtain bs' where "h2 = h(buf b \<mapsto> Bytes bs')"
      using assms(1,3,4)
      by (auto simp: fenster_bridge_copy_buf_def memcpy_def split: if_splits option.splits obj.splits)
    moreover have "buf b \<noteq> fb"
      using assms(1,3) by (auto simp: get_bridge_Some)
    ultimately have "get_bridge h2 fb = get_bridge h fb"
      by (simp add: get_bridge_def)
    then show ?thesis
      using CopyBuf assms(1) by simp
  next
    case GetResized
    then have "h2 = h(fb \<mapsto> Bridge (b\<lparr>resized := 0\<rparr>))"
      using assms(1,4) by (simp add: get_resized_eq)
    then show ?thesis
      using fb GetResized by (simp add: get_bridge_def)
  next
    case (SetScale s)
    then have "fenster_bridge_set_scale h fb s = Some h2"
      using assms(4) by simp
    then obtain pw ph where
      "h2 = h(fb \<mapsto> Bridge (b\<lparr>f := (f b)\<lparr>scale := s, phys_width := pw, phys_height := ph\<rparr>\<rparr>))"
      using assms(1) by (elim set_scale_cases [rotated])
    then show ?thesis
      using fb SetScale by (simp add: get_bridge_def)
  qed (use assms in \<open>auto simp: fenster_bridge_get_buf_def fenster_bridge_get_keys_def
        fenster_bridge_get_mod_def fenster_bridge_get_size_def fenster_bridge_get_scale_def\<close>)
qed

text \<open>
  C6, as claimed, fails.  A 2 by 2 window is created and opened on a display of scale 1,
  and the flag is read.  The window then moves to a display of scale 2: the pump reports
  4 by 4, \<open>fenster_bridge_loop\<close> finds the mismatch, and \<open>calloc\<close> fails.  The next
  \<open>fenster_bridge_get_resized\<close> reports 4 by 4 with the flag 0, although the physical size
  has changed since the flag was last read.  A later loop call in which nothing changes
  reallocates and sets the flag, so the next read returns 1 although no physical-size
  change has occurred since the last clear.
\<close>

theorem get_resized_counterexample:
  "fenster_bridge_create 1 2 3 Map.empty ''demo'' 2 2 = Some (1, demo_heap)
   \<and> fenster_bridge_open lib_1x 4 demo_heap 1 = Some (0, demo_heap_open)
   \<and> fenster_bridge_get_resized demo_heap_open 1 = Some (0, 2, 2, demo_heap_open)
   \<and> fenster_bridge_loop Apple lib_2x True NULL demo_heap_open 1 = Some (0, demo_heap_moved)
   \<and> fenster_bridge_get_resized demo_heap_moved 1 = Some (0, 4, 4, demo_heap_moved)
   \<and> fenster_bridge_loop Apple lib_idle True 4 demo_heap_moved 1 = Some (0, demo_heap_late)
   \<and> fenster_bridge_get_resized demo_heap_late 1 = Some (1, 4, 4, demo_heap_done)"
  using demo_create demo_course demo_flags by (intro conjI)

text \<open>
  C6, amended.  \<open>fenster_bridge_get_resized\<close> returns the resize flag, writes the current
  physical width and height to its out-parameters and clears the flag, changing nothing
  else; an immediately following call returns 0 and the same dimensions.  The flag is
  set by one call only: a \<open>fenster_bridge_loop\<close> that finds the physical dimensions
  different from the cached ones and whose \<open>calloc\<close> succeeds.  After every other call on
  a handle with a live buffer the flag is what it was (cleared after
  \<open>fenster_bridge_get_resized\<close>): after \<open>fenster_bridge_open\<close>, also when it reallocates,
  after \<open>fenster_bridge_set_scale\<close>, and after a \<open>fenster_bridge_loop\<close> whose dimensions
  agree or whose \<open>calloc\<close> fails.  So after a \<open>fenster_bridge_loop\<close> that finds the
  dimensions changed and reallocates, the first call returns 1 with the new dimensions
  and the next one 0.  When the flag is clear and the cached dimensions equal the
  physical ones, and the session continues with calls that leave the physical size
  alone (no \<open>set_scale\<close>, library calls that report the same physical size), the call
  returns 0 and the dimensions reported are the same.
\<close>

theorem get_resized_read_and_reset:
  assumes "get_bridge h fb = Some b"
  shows
    "fenster_bridge_get_resized h fb
       = Some (resized b, phys_width (f b), phys_height (f b), h(fb \<mapsto> Bridge (b\<lparr>resized := 0\<rparr>)))
     \<and> fenster_bridge_get_resized (h(fb \<mapsto> Bridge (b\<lparr>resized := 0\<rparr>))) fb
       = Some (0, phys_width (f b), phys_height (f b), h(fb \<mapsto> Bridge (b\<lparr>resized := 0\<rparr>)))
     \<and> (buf b \<noteq> NULL \<and> h (buf b) = Some (Bytes bs) \<and> fenster_loop (f b) = (r, f1)
          \<and> (phys_width f1 \<noteq> prev_width b \<or> phys_height f1 \<noteq> prev_height b)
          \<and> fst (calloc a h (scast (phys_width f1) * scast (phys_height f1)) 4) \<noteq> NULL \<longrightarrow>
        (\<exists>h1 h2. fenster_bridge_loop plat fenster_loop xok a h fb = Some (r, h1)
           \<and> fenster_bridge_get_resized h1 fb = Some (1, phys_width f1, phys_height f1, h2)
           \<and> fenster_bridge_get_resized h2 fb = Some (0, phys_width f1, phys_height f1, h2)))
     \<and> (resized b = 0 \<and> phys_width (f b) = prev_width b \<and> phys_height (f b) = prev_height b
          \<and> (\<forall>c \<in> set cs. quiet c) \<and> run plat h fb cs = Some h' \<longrightarrow>
        (\<exists>h''. fenster_bridge_get_resized h' fb
           = Some (0, phys_width (f b), phys_height (f b), h'')))
     \<and> (buf b \<noteq> NULL \<and> h (buf b) = Some (Bytes bs) \<and> step plat h fb c = Some h2 \<longrightarrow>
        (\<exists>b2. get_bridge h2 fb = Some b2
           \<and> resized b2 = (if sets_flag h b c then 1 else if c = GetResized then 0
                           else resized b)))"
    (is "?read \<and> ?again \<and> ?after_loop \<and> ?quiet \<and> ?flag")
proof -
  have fb: "fb \<noteq> NULL"
    using assms by (simp add: get_bridge_Some)
  have read: ?read
    using assms by (rule get_resized_eq)
  have again: ?again
    using get_resized_eq [of "h(fb \<mapsto> Bridge (b\<lparr>resized := 0\<rparr>))" fb "b\<lparr>resized := 0\<rparr>"] fb
    by (simp add: get_bridge_def)
  have after_loop: ?after_loop
  proof
    assume p: "buf b \<noteq> NULL \<and> h (buf b) = Some (Bytes bs) \<and> fenster_loop (f b) = (r, f1)
          \<and> (phys_width f1 \<noteq> prev_width b \<or> phys_height f1 \<noteq> prev_height b)
          \<and> fst (calloc a h (scast (phys_width f1) * scast (phys_height f1)) 4) \<noteq> NULL"
    let ?b2 = "b\<lparr>f := (if plat = X11
                        then f1\<lparr>f_buf := a,
                               img := XCreateImage xok a (phys_width f1) (phys_height f1)\<rparr>
                        else f1\<lparr>f_buf := a\<rparr>),
                  buf := a, resized := 1,
                  prev_width := phys_width f1, prev_height := phys_height f1,
                  prev_scale := scale f1\<rparr>"
    let ?h0 = "h(a \<mapsto> Bytes (replicate (4 * nat (sint (phys_width f1) * sint (phys_height f1))) 0),
                 buf b := None)"
    have l: "fenster_bridge_loop plat fenster_loop xok a h fb = Some (r, ?h0(fb \<mapsto> Bridge ?b2))"
      using loop_eq [where lib = fenster_loop and a = a and plat = plat and xok = xok and h = h
          and fb = fb and b = b and bs = bs and r = r and ?f1.0 = f1] assms p
      by simp
    have g1: "get_bridge (?h0(fb \<mapsto> Bridge ?b2)) fb = Some ?b2"
      using fb by (simp add: get_bridge_def)
    have g2: "get_bridge (?h0(fb \<mapsto> Bridge (?b2\<lparr>resized := 0\<rparr>))) fb = Some (?b2\<lparr>resized := 0\<rparr>)"
      using fb by (simp add: get_bridge_def)
    have r1: "fenster_bridge_get_resized (?h0(fb \<mapsto> Bridge ?b2)) fb
        = Some (1, phys_width f1, phys_height f1, ?h0(fb \<mapsto> Bridge (?b2\<lparr>resized := 0\<rparr>)))"
      using get_resized_eq [OF g1] by simp
    have r2: "fenster_bridge_get_resized (?h0(fb \<mapsto> Bridge (?b2\<lparr>resized := 0\<rparr>))) fb
        = Some (0, phys_width f1, phys_height f1, ?h0(fb \<mapsto> Bridge (?b2\<lparr>resized := 0\<rparr>)))"
      using get_resized_eq [OF g2] by simp
    show "\<exists>h1 h2. fenster_bridge_loop plat fenster_loop xok a h fb = Some (r, h1)
           \<and> fenster_bridge_get_resized h1 fb = Some (1, phys_width f1, phys_height f1, h2)
           \<and> fenster_bridge_get_resized h2 fb = Some (0, phys_width f1, phys_height f1, h2)"
      using l r1 r2 by blast
  qed
  have quiet: ?quiet
  proof
    assume p: "resized b = 0 \<and> phys_width (f b) = prev_width b \<and> phys_height (f b) = prev_height b
          \<and> (\<forall>c \<in> set cs. quiet c) \<and> run plat h fb cs = Some h'"
    then have "settled h fb (phys_width (f b)) (phys_height (f b))"
      using assms by (simp add: settled_def)
    then have "settled h' fb (phys_width (f b)) (phys_height (f b))"
      using p by (intro run_settled [of h fb _ _ cs plat h']) auto
    then obtain b' where "get_bridge h' fb = Some b'" "resized b' = 0"
        "phys_width (f b') = phys_width (f b)" "phys_height (f b') = phys_height (f b)"
      by (rule settledD)
    then show "\<exists>h''. fenster_bridge_get_resized h' fb
           = Some (0, phys_width (f b), phys_height (f b), h'')"
      using get_resized_eq [of h' fb b'] by simp
  qed
  have flag: ?flag
    using step_flag [OF assms, of bs plat c h2] by blast
  show ?thesis
    by (rule conjI [OF read conjI [OF again conjI [OF after_loop conjI [OF quiet flag]]]])
qed

lemma demo_quiet_run:
  "run Apple demo_heap_open 1 [Loop lib_idle True 5, GetBuf, GetResized]
     = Some demo_heap_open"
proof -
  have g1: "get_bridge demo_heap_open 1 = Some demo_bridge_open"
    by (simp add: demo_heap_open_def get_bridge_def)
  have s: "phys_width (f demo_bridge_open) = prev_width demo_bridge_open"
    "phys_height (f demo_bridge_open) = prev_height demo_bridge_open"
    by (simp_all add: demo_bridge_open_def demo_bridge_def)
  have e: "demo_heap_open(1 \<mapsto> Bridge demo_bridge_open) = demo_heap_open"
    "demo_heap_open(1 \<mapsto> Bridge (demo_bridge_open\<lparr>resized := 0\<rparr>)) = demo_heap_open"
    by (simp_all add: demo_heap_open_def demo_bridge_open_def demo_bridge_def)
  have "loop_realloc Apple True 5 demo_heap_open demo_bridge_open
      = Some (demo_bridge_open, demo_heap_open)"
    using s by (rule loop_realloc_same)
  then have l: "fenster_bridge_loop Apple lib_idle True 5 demo_heap_open 1 = Some (0, demo_heap_open)"
    using g1 by (simp del: One_nat_def add: fenster_bridge_loop_def lib_idle_def put_bridge_def e)
  show ?thesis
    using g1 by (simp del: One_nat_def add: l fenster_bridge_get_buf_def get_resized_eq e)
qed

theorem get_resized_read_and_reset_witness:
  "fenster_bridge_get_resized demo_heap_late 1 = Some (1, 4, 4, demo_heap_done)
   \<and> fenster_bridge_get_resized demo_heap_done 1 = Some (0, 4, 4, demo_heap_done)
   \<and> (\<exists>h1 h2. fenster_bridge_loop Apple lib_2x True 4 demo_heap_open 1 = Some (0, h1)
         \<and> fenster_bridge_get_resized h1 1 = Some (1, 4, 4, h2)
         \<and> fenster_bridge_get_resized h2 1 = Some (0, 4, 4, h2))
   \<and> run Apple demo_heap_open 1 [Loop lib_idle True 5, GetBuf, GetResized]
       = Some demo_heap_open
   \<and> (\<exists>h''. fenster_bridge_get_resized demo_heap_open 1 = Some (0, 2, 2, h''))
   \<and> step Apple demo_heap_open 1 (Loop lib_2x True NULL) = Some demo_heap_moved
   \<and> (\<exists>b2. get_bridge demo_heap_moved 1 = Some b2 \<and> resized b2 = 0)
   \<and> step Apple demo_heap 1 (Open lib_2x 4) = Some demo_heap_2x
   \<and> (\<exists>b2. get_bridge demo_heap_2x 1 = Some b2 \<and> resized b2 = 0)"
proof -
  have g: "get_bridge demo_heap_late 1 = Some demo_bridge_late"
    by (simp add: demo_heap_late_def get_bridge_def)
  have e: "demo_heap_late(1 \<mapsto> Bridge (demo_bridge_late\<lparr>resized := 0\<rparr>)) = demo_heap_done"
    by (simp add: demo_heap_late_def demo_heap_done_def)
  have d: "resized demo_bridge_late = 1" "phys_width (f demo_bridge_late) = 4"
    "phys_height (f demo_bridge_late) = 4"
    by (simp_all add: demo_bridge_late_def demo_bridge_moved_def)
  note t1 = get_resized_read_and_reset [OF g]
  have p1: "fenster_bridge_get_resized demo_heap_late 1 = Some (1, 4, 4, demo_heap_done)"
    using t1 [THEN conjunct1] by (simp only: e d)
  have p2: "fenster_bridge_get_resized demo_heap_done 1 = Some (0, 4, 4, demo_heap_done)"
    using t1 [THEN conjunct2, THEN conjunct1] by (simp only: e d)
  have g1: "get_bridge demo_heap_open 1 = Some demo_bridge_open"
    by (simp add: demo_heap_open_def get_bridge_def)
  have d1: "buf demo_bridge_open \<noteq> NULL"
    "demo_heap_open (buf demo_bridge_open) = Some (Bytes (replicate 16 0))"
    "lib_2x (f demo_bridge_open) = (0, f demo_bridge_moved)"
    "phys_width (f demo_bridge_moved) \<noteq> prev_width demo_bridge_open
       \<or> phys_height (f demo_bridge_moved) \<noteq> prev_height demo_bridge_open"
    "fst (calloc 4 demo_heap_open
       (scast (phys_width (f demo_bridge_moved)) * scast (phys_height (f demo_bridge_moved))) 4)
       \<noteq> NULL"
    by (simp_all add: demo_heap_open_def demo_heap_def demo_bridge_open_def demo_bridge_moved_def
        demo_bridge_def lib_2x_def zero_fenster_def calloc_def)
  have m: "phys_width (f demo_bridge_moved) = 4" "phys_height (f demo_bridge_moved) = 4"
    "phys_width (f demo_bridge_open) = 2" "phys_height (f demo_bridge_open) = 2"
    by (simp_all add: demo_bridge_moved_def demo_bridge_open_def)
  note t2 = get_resized_read_and_reset [OF g1, where bs = "replicate 16 0"
      and fenster_loop = lib_2x and r = 0 and ?f1.0 = "f demo_bridge_moved" and a = 4
      and plat = Apple and xok = True
      and cs = "[Loop lib_idle True 5, GetBuf, GetResized]" and h' = demo_heap_open
      and c = "Loop lib_2x True NULL" and ?h2.0 = demo_heap_moved]
  have p3: "\<exists>h1 h2. fenster_bridge_loop Apple lib_2x True 4 demo_heap_open 1 = Some (0, h1)
         \<and> fenster_bridge_get_resized h1 1 = Some (1, 4, 4, h2)
         \<and> fenster_bridge_get_resized h2 1 = Some (0, 4, 4, h2)"
    using t2 [THEN conjunct2, THEN conjunct2, THEN conjunct1] d1 by (simp only: m) blast
  have q: "resized demo_bridge_open = 0"
    "phys_width (f demo_bridge_open) = prev_width demo_bridge_open"
    "phys_height (f demo_bridge_open) = prev_height demo_bridge_open"
    "\<forall>c \<in> set [Loop lib_idle True 5, GetBuf, GetResized]. quiet c"
    by (simp_all add: demo_bridge_open_def demo_bridge_def keeps_phys_def lib_idle_def)
  have p4: "\<exists>h''. fenster_bridge_get_resized demo_heap_open 1 = Some (0, 2, 2, h'')"
    using t2 [THEN conjunct2, THEN conjunct2, THEN conjunct2, THEN conjunct1] q demo_quiet_run
    by (simp only: m)
  have s5: "step Apple demo_heap_open 1 (Loop lib_2x True NULL) = Some demo_heap_moved"
    by (simp del: One_nat_def add: demo_course(2))
  have f5: "\<not> sets_flag demo_heap_open demo_bridge_open (Loop lib_2x True NULL)"
    "Loop lib_2x True NULL \<noteq> GetResized"
    by (simp_all add: calloc_def Let_def)
  have p5: "\<exists>b2. get_bridge demo_heap_moved 1 = Some b2 \<and> resized b2 = 0"
    using t2 [THEN conjunct2, THEN conjunct2, THEN conjunct2, THEN conjunct2] d1(1,2) s5 f5 q(1)
    by simp
  have s6: "step Apple demo_heap 1 (Open lib_2x 4) = Some demo_heap_2x"
    by (simp del: One_nat_def add: demo_open_2x)
  have f6: "\<not> sets_flag demo_heap demo_bridge (Open lib_2x 4)" "Open lib_2x 4 \<noteq> GetResized"
    "resized demo_bridge = 0"
    by (simp_all add: demo_bridge_def)
  have p6: "\<exists>b2. get_bridge demo_heap_2x 1 = Some b2 \<and> resized b2 = 0"
    using get_resized_read_and_reset [OF demo_get, where bs = "replicate 16 0" and plat = Apple
        and c = "Open lib_2x 4" and ?h2.0 = demo_heap_2x,
        THEN conjunct2, THEN conjunct2, THEN conjunct2, THEN conjunct2]
      demo_buf s6 f6
    by simp
  show ?thesis
    using p1 p2 p3 demo_quiet_run p4 s5 p5 s6 p6 by (intro conjI)
qed

subsection \<open>Sessions do not get stuck, and closing releases everything\<close>

text \<open>
  On a maintained handle every call is defined, except a \<open>copy_buf\<close> whose length is
  negative or exceeds the buffer or the source region, and a \<open>set_scale\<close> with a scale
  whose product with a logical dimension does not convert to \<open>int\<close>.
\<close>

lemma step_defined:
  assumes "bridge_ok h fb" and "\<forall>src n. c \<noteq> CopyBuf src n"
    and "\<forall>s b. c = SetScale s \<and> get_bridge h fb = Some b \<longrightarrow>
           scale_dim (width (f b)) s \<noteq> None \<and> scale_dim (height (f b)) s \<noteq> None"
  shows "\<exists>h'. step plat h fb c = Some h'"
proof -
  from assms(1) obtain b bs where b: "get_bridge h fb = Some b" "buf b \<noteq> NULL"
      "h (buf b) = Some (Bytes bs)"
    by (rule bridge_okD)
  show ?thesis
  proof (cases c)
    case (Open lib a)
    obtain r f1 where l: "lib (f b) = (r, f1)"
      by (cases "lib (f b)")
    show ?thesis
      using Open open_eq [where lib = lib and a = a, OF b l] by simp
  next
    case (Loop lib xok a)
    obtain r f1 where l: "lib (f b) = (r, f1)"
      by (cases "lib (f b)")
    show ?thesis
      using Loop loop_eq [where lib = lib and a = a and plat = plat and xok = xok, OF b l]
      by simp
  next
    case (CopyBuf src n)
    then show ?thesis
      using assms(2) by simp
  next
    case (SetScale s)
    then obtain pw ph where "scale_dim (width (f b)) s = Some pw"
        "scale_dim (height (f b)) s = Some ph"
      using assms(3) b(1) by auto
    then show ?thesis
      using SetScale set_scale_eq [OF b(1)] by simp
  qed (use b(1) in \<open>simp_all add: fenster_bridge_get_buf_def fenster_bridge_get_keys_def
        fenster_bridge_get_mod_def fenster_bridge_get_size_def fenster_bridge_get_scale_def
        get_resized_eq\<close>)
qed

text \<open>
  \<open>fenster_bridge_close\<close> is a no-op on the null handle; on a handle whose buffer and
  title copy are live it releases the buffer, the title copy and the handle.
\<close>

lemma close_null: "fenster_bridge_close fenster_close h NULL = Some h"
  by (simp add: fenster_bridge_close_def)

lemma close_releases:
  assumes "get_bridge h fb = Some b" and "buf b \<noteq> NULL" and "h (buf b) = Some (Bytes bs)"
    and "title_copy b \<noteq> NULL" and "h (title_copy b) = Some (CString s)"
  shows "fenster_bridge_close fenster_close h fb
     = Some (h(fb := None, buf b := None, title_copy b := None))"
proof -
  have ne: "fb \<noteq> NULL" "buf b \<noteq> fb" "title_copy b \<noteq> fb" "title_copy b \<noteq> buf b"
    using assms by (auto simp: get_bridge_Some)
  let ?h1 = "h(fb \<mapsto> Bridge (b\<lparr>f := fenster_close (f b)\<rparr>))"
  have 1: "put_bridge h fb (b\<lparr>f := fenster_close (f b)\<rparr>) = Some ?h1"
    using assms(1) by (rule put_bridge_Some)
  have 2: "free ?h1 (buf b) = Some (?h1(buf b := None))"
    using assms(2,3) ne by (simp add: free_def)
  have 3: "free (?h1(buf b := None)) (title_copy b) = Some (?h1(buf b := None, title_copy b := None))"
    using assms(4,5) ne by (simp add: free_def)
  have 4: "free (?h1(buf b := None, title_copy b := None)) fb
      = Some (?h1(buf b := None, title_copy b := None, fb := None))"
    using ne by (simp add: free_def)
  have "?h1(buf b := None, title_copy b := None, fb := None)
      = h(fb := None, buf b := None, title_copy b := None)"
    using ne by (auto simp: fun_eq_iff)
  then show ?thesis
    using assms(1) ne(1) 1 2 3 4 by (simp add: fenster_bridge_close_def)
qed

end
